theory Spec2Isabelle
  imports Complex_Main "HOL-Library.Char_ord" "HOL-Library.List_Lexorder" "HOL-Library.Sublist"
begin

section \<open>Python primitives used by youtube_screenshot_pdf.py\<close>

text \<open>
  Timestamps and durations are Python floats (or ints, in interval mode). They are
  modelled as reals: the comparisons of the source are exact on floats; the quotient and
  the sum of the duration check are taken without rounding; the product that gives the
  frame index is the product of floats, whose rounding is a parameter of the environment.
  Console output is modelled as a list of events, one per \<^verbatim>\<open>print\<close> that
  matters to a reader of the log; \<^verbatim>\<open>time.sleep\<close> is not modelled. Three of the
  messages (lines 200, 221 and 291) format a number of seconds as a
  \<^verbatim>\<open>timedelta\<close>, which raises \<^verbatim>\<open>OverflowError\<close> out of its range: these are
  branches of the model.
\<close>

datatype error = OSError | ValueError | OverflowError

definition py_int :: "real \<Rightarrow> int" where
  \<comment> \<open>\<^verbatim>\<open>int(x)\<close> on a float: truncation towards zero.\<close>
  "py_int x = (if 0 \<le> x then \<lfloor>x\<rfloor> else \<lceil>x\<rceil>)"

definition timedelta_ok :: "int \<Rightarrow> bool" where
  \<comment> \<open>\<^verbatim>\<open>timedelta(seconds=n)\<close> for an int \<open>n\<close> returns when the number of days
      \<^verbatim>\<open>n // 86400\<close> has magnitude at most 999999999, and raises OverflowError otherwise.\<close>
  "timedelta_ok n = (- 999999999 \<le> n div 86400 \<and> n div 86400 \<le> 999999999)"

definition py_range :: "int \<Rightarrow> int \<Rightarrow> int \<Rightarrow> error + int list" where
  \<comment> \<open>\<^verbatim>\<open>list(range(start, stop, step))\<close>; a zero step raises ValueError.\<close>
  "py_range start stop step =
     (if step = 0 then Inl ValueError
      else if 0 < step then
        Inr (if start < stop
             then map (\<lambda>k. start + int k * step) [0..<nat ((stop - start - 1) div step + 1)]
             else [])
      else
        Inr (if stop < start
             then map (\<lambda>k. start + int k * step) [0..<nat ((start - stop - 1) div (- step) + 1)]
             else []))"

definition generate_interval_timestamps :: "real \<Rightarrow> int \<Rightarrow> error + int list" where
  \<comment> \<open>line 157: \<^verbatim>\<open>list(range(0, int(duration) + 1, interval))\<close>\<close>
  "generate_interval_timestamps duration interval = py_range 0 (py_int duration + 1) interval"

fun max_list :: "real list \<Rightarrow> real" where
  \<comment> \<open>\<^verbatim>\<open>max(timestamps)\<close> on a non-empty list; the source guards the empty list.\<close>
  "max_list [] = 0"
| "max_list (x # xs) = foldl max x xs"

section \<open>File names\<close>

type_synonym path = string

definition digit :: "nat \<Rightarrow> char" where
  "digit d = char_of (48 + d)"

fun str_nat :: "nat \<Rightarrow> string" where
  \<comment> \<open>\<^verbatim>\<open>str(n)\<close> for a non-negative int: its decimal digits.\<close>
  "str_nat n = (if n < 10 then [digit n] else str_nat (n div 10) @ [digit (n mod 10)])"

declare str_nat.simps [simp del]

definition str_int :: "int \<Rightarrow> string" where
  "str_int k = (if k < 0 then CHR ''-'' # str_nat (nat (- k)) else str_nat (nat k))"

definition zero_pad :: "nat \<Rightarrow> string \<Rightarrow> string" where
  \<comment> \<open>the format \<^verbatim>\<open>{i:03d}\<close> for \<open>i \<ge> 0\<close>: zeros on the left up to the width, never a cut.\<close>
  "zero_pad w s = replicate (w - length s) CHR ''0'' @ s"

definition is_digit :: "char \<Rightarrow> bool" where
  "is_digit c = (48 \<le> (of_char c :: nat) \<and> (of_char c :: nat) \<le> 57)"

definition digits_val :: "string \<Rightarrow> nat" where
  \<comment> \<open>the number that a string of decimal digits stands for\<close>
  "digits_val s = foldl (\<lambda>acc c. 10 * acc + (of_char c - 48)) 0 s"

definition isabs :: "path \<Rightarrow> bool" where
  "isabs p = (case p of [] \<Rightarrow> False | c # _ \<Rightarrow> c = CHR ''/'')"

definition path_join :: "path \<Rightarrow> path \<Rightarrow> path" where
  \<comment> \<open>\<^verbatim>\<open>os.path.join(a, b)\<close> of posixpath.\<close>
  "path_join a b =
     (if isabs b then b
      else if a = [] \<or> last a = CHR ''/'' then a @ b
      else a @ ''/'' @ b)"

definition img_name :: "nat \<Rightarrow> real \<Rightarrow> string" where
  \<comment> \<open>line 219: \<^verbatim>\<open>f"screenshot_{i:03d}_{int(timestamp)}s.jpg"\<close>\<close>
  "img_name i timestamp =
     ''screenshot_'' @ zero_pad 3 (str_nat i) @ ''_'' @ str_int (py_int timestamp) @ ''s.jpg''"

definition img_path :: "path \<Rightarrow> nat \<Rightarrow> real \<Rightarrow> path" where
  "img_path output_dir i timestamp = path_join output_dir (img_name i timestamp)"

section \<open>Files, the environment and the log\<close>

text \<open>
  The file system is a map from paths to regular files; directories are not part of it.
  An image file records which frame it holds: the frame the external tool wrote for a
  seek position in seconds, or the frame of a given index that the decoder returned,
  with the JPEG quality it was saved at.
\<close>

datatype image = ToolShot real | DecoderShot int nat

datatype cell = Heading | TitleLine "nat list" | Count nat

datatype page = TextPage "cell list" | ImagePage image

datatype content = EmptyFile | Junk | ImageFile image | Document "page list"

type_synonym fs = "path \<Rightarrow> content option"

text \<open>
  What the outside world does is a parameter. For the duration check, the decoder
  raises, does not open, or opens and reports frame rate, frame count and position
  (\<^verbatim>\<open>CAP_PROP_FPS\<close>, \<^verbatim>\<open>CAP_PROP_FRAME_COUNT\<close>, \<^verbatim>\<open>CAP_PROP_POS_MSEC\<close>).
  For attempt \<open>retry\<close> on the timestamp of index \<open>i\<close>, the external tool is absent
  (\<^verbatim>\<open>shutil.which\<close> finds nothing), exits with a return code having written nothing, an
  empty file or a frame, raises \<^verbatim>\<open>SubprocessError\<close> or \<^verbatim>\<open>TimeoutExpired\<close>, or raises
  something else; the decoder raises, does not open, or opens with a frame rate, the set
  of frame positions at which \<^verbatim>\<open>read\<close> returns a frame, and whether \<^verbatim>\<open>imwrite\<close>
  writes the file.
  The product of two floats is the parameter \<open>float_mul\<close>.
  For the document: whether the output directory exists or can be made, whether
  \<^verbatim>\<open>pdf.output\<close> writes the file or raises (leaving nothing or something at the
  output path), and which files \<^verbatim>\<open>os.remove\<close> is allowed to delete; and two lengths
  of the page layout of the library, in points: the top margin, where the text of a
  page starts, and the height beyond which a cell of text goes to a new page.
\<close>

datatype source = SourceError | SourceClosed | SourceOpen real real real

datatype written = Nothing | EmptyOutput | FrameOutput

datatype tool = ToolAbsent | ToolExit int written | ToolSubprocessError | ToolOtherError

datatype write_outcome = Written | WriteFailed "content option"

datatype decoder = DecoderError | DecoderClosed | DecoderOpen real "int \<Rightarrow> bool" bool

record env =
  cwd :: path
  makedirs_ok :: bool
  is_local_file :: bool
  probe_source :: source
  tool :: "nat \<Rightarrow> nat \<Rightarrow> tool"
  decoder :: "nat \<Rightarrow> nat \<Rightarrow> decoder"
  float_mul :: "real \<Rightarrow> real \<Rightarrow> real"
  pdf_dir_ok :: bool
  pdf_output :: write_outcome
  remove_ok :: "path \<Rightarrow> bool"
  top_margin :: real
  page_break_trigger :: real

datatype event =
    CannotOpen
  | OutsideDuration nat
  | NoValidTimestamps
  | DurationUnknown
  | Attempt nat real
  | Captured nat real
  | Failed nat real
  | Summary nat nat

record state =
  images :: "path list"
  files :: fs
  log :: "event list"

section \<open>capture_screenshots\<close>

datatype probed = ProbeException | Unreadable | Duration real

definition probe :: "env \<Rightarrow> real list \<Rightarrow> probed" where
  \<comment> \<open>lines 177-198\<close>
  "probe e timestamps =
     (case probe_source e of
        SourceError \<Rightarrow> ProbeException
      | SourceClosed \<Rightarrow> Unreadable
      | SourceOpen fps frame_count pos_msec \<Rightarrow>
          (let total_frames = py_int frame_count in
           if is_local_file e \<and> 0 < fps \<and> 0 < total_frames
           then Duration (real_of_int total_frames / fps)
           else
             (let duration = pos_msec / 1000 in
              if duration \<le> 0
              then (if 0 < length timestamps \<and> 0 < max_list timestamps
                    then Duration (max_list timestamps + 60)
                    else Duration duration)
              else Duration duration)))"

definition duration_check :: "env \<Rightarrow> real list \<Rightarrow> probed" where
  \<comment> \<open>lines 177-200: the duration of \<open>probe\<close>, then the message of line 200, which formats
      it as a \<^verbatim>\<open>timedelta\<close> inside the \<^verbatim>\<open>try\<close>: out of range it raises, and the
      handler of line 209 takes over\<close>
  "duration_check e timestamps =
     (case probe e timestamps of
        ProbeException \<Rightarrow> ProbeException
      | Unreadable \<Rightarrow> Unreadable
      | Duration duration \<Rightarrow>
          if timedelta_ok (py_int duration) then Duration duration else ProbeException)"

definition valid_timestamps :: "real \<Rightarrow> real list \<Rightarrow> real list" where
  \<comment> \<open>line 202\<close>
  "valid_timestamps duration timestamps = [t \<leftarrow> timestamps. 0 \<le> t \<and> t \<le> duration]"

definition nonempty :: "fs \<Rightarrow> path \<Rightarrow> bool" where
  \<comment> \<open>\<^verbatim>\<open>os.path.exists(p) and os.path.getsize(p) > 0\<close>\<close>
  "nonempty fs p = (case fs p of None \<Rightarrow> False | Some EmptyFile \<Rightarrow> False | Some _ \<Rightarrow> True)"

definition tool_write :: "written \<Rightarrow> path \<Rightarrow> real \<Rightarrow> fs \<Rightarrow> fs" where
  "tool_write w p t fs =
     (case w of
        Nothing \<Rightarrow> fs
      | EmptyOutput \<Rightarrow> fs(p \<mapsto> EmptyFile)
      | FrameOutput \<Rightarrow> fs(p \<mapsto> ImageFile (ToolShot t)))"

definition decode_seek ::
  "(real \<Rightarrow> real \<Rightarrow> real) \<Rightarrow> decoder \<Rightarrow> path \<Rightarrow> real \<Rightarrow> fs \<Rightarrow> bool \<times> fs" where
  \<comment> \<open>lines 254-281; \<open>mul\<close> is the product of floats\<close>
  "decode_seek mul d img t fs =
     (case d of
        DecoderError \<Rightarrow> (False, fs)
      | DecoderClosed \<Rightarrow> (False, fs)
      | DecoderOpen fps frame_at imwrite \<Rightarrow>
          (let frame_pos = py_int (mul t fps);
               pos = max 0 frame_pos
           in if frame_at pos
              then (let fs' = (if imwrite then fs(img \<mapsto> ImageFile (DecoderShot pos 95)) else fs)
                    in (nonempty fs' img, fs'))
              else (False, fs)))"

definition frame_returned :: "(real \<Rightarrow> real \<Rightarrow> real) \<Rightarrow> decoder \<Rightarrow> real \<Rightarrow> bool" where
  \<comment> \<open>the decoder opens and \<^verbatim>\<open>read\<close> returns a frame at the position sought for \<open>t\<close>\<close>
  "frame_returned mul d t =
     (case d of
        DecoderOpen fps frame_at imwrite \<Rightarrow> frame_at (max 0 (py_int (mul t fps)))
      | _ \<Rightarrow> False)"

definition attempt ::
  "(real \<Rightarrow> real \<Rightarrow> real) \<Rightarrow> tool \<Rightarrow> decoder \<Rightarrow> path \<Rightarrow> real \<Rightarrow> fs \<Rightarrow> bool \<times> fs" where
  \<comment> \<open>the two strategies of one pass, lines 223-281, with the handler of line 283 for
      what they raise\<close>
  "attempt mul tool_result d img t fs =
     (case tool_result of
        ToolAbsent \<Rightarrow> decode_seek mul d img t fs
      | ToolExit returncode w \<Rightarrow>
          (let fs' = tool_write w img t fs
           in if returncode = 0 \<and> nonempty fs' img then (True, fs')
              else decode_seek mul d img t fs')
      | ToolSubprocessError \<Rightarrow> decode_seek mul d img t fs
      | ToolOtherError \<Rightarrow> (False, fs))"

fun retries :: "env \<Rightarrow> path \<Rightarrow> nat \<Rightarrow> real \<Rightarrow> nat \<Rightarrow> nat \<Rightarrow> state \<Rightarrow> bool \<times> state" where
  \<comment> \<open>the loop \<^verbatim>\<open>for retry in range(max_retries)\<close> from \<open>retry\<close> on, with \<open>n\<close> passes
      left. The message of line 221 formats the timestamp as a \<^verbatim>\<open>timedelta\<close> inside the
      \<^verbatim>\<open>try\<close>: out of range it raises, and the handler of line 283 ends the pass before
      a strategy is tried.\<close>
  "retries e img i t retry 0 s = (False, s)"
| "retries e img i t retry (Suc n) s =
     (if \<not> timedelta_ok (py_int t) then retries e img i t (Suc retry) n s
      else
        (let s1 = s\<lparr>log := log s @ [Attempt i t]\<rparr>;
             r = attempt (float_mul e) (tool e i retry) (decoder e i retry) img t (files s1)
         in if fst r
            then (True, s1\<lparr>images := images s1 @ [img], files := snd r,
                            log := log s1 @ [Captured i t]\<rparr>)
            else retries e img i t (Suc retry) n (s1\<lparr>files := snd r\<rparr>)))"

definition capture_one ::
  "env \<Rightarrow> path \<Rightarrow> nat \<Rightarrow> nat \<Rightarrow> real \<Rightarrow> state \<Rightarrow> error + state" where
  \<comment> \<open>the body of the loop over the timestamps, lines 215-291. The message of line 291
      formats the timestamp as a \<^verbatim>\<open>timedelta\<close> outside any \<^verbatim>\<open>try\<close>: out of range
      it raises, and the exception leaves the function.\<close>
  "capture_one e output_dir max_retries i t s =
     (let r = retries e (img_path output_dir i t) i t 0 max_retries s
      in if fst r then Inr (snd r)
         else if timedelta_ok (py_int t)
              then Inr ((snd r)\<lparr>log := log (snd r) @ [Failed i t]\<rparr>)
              else Inl OverflowError)"

fun capture_loop ::
  "env \<Rightarrow> path \<Rightarrow> nat \<Rightarrow> nat \<Rightarrow> real list \<Rightarrow> state \<Rightarrow> error + state" where
  \<comment> \<open>\<^verbatim>\<open>for i, timestamp in enumerate(valid_timestamps, 1)\<close>, from index \<open>i\<close> on\<close>
  "capture_loop e output_dir max_retries i [] s = Inr s"
| "capture_loop e output_dir max_retries i (t # ts) s =
     (case capture_one e output_dir max_retries i t s of
        Inl err \<Rightarrow> Inl err
      | Inr s' \<Rightarrow> capture_loop e output_dir max_retries (Suc i) ts s')"

definition resolve_dir :: "env \<Rightarrow> path \<Rightarrow> path" where
  \<comment> \<open>lines 163-164\<close>
  "resolve_dir e output_dir = (if isabs output_dir then output_dir else path_join (cwd e) output_dir)"

definition finish :: "nat \<Rightarrow> state \<Rightarrow> state" where
  \<comment> \<open>line 293\<close>
  "finish n s = s\<lparr>log := log s @ [Summary (length (images s)) n]\<rparr>"

definition capture_screenshots ::
  "env \<Rightarrow> real list \<Rightarrow> path \<Rightarrow> nat \<Rightarrow> fs \<Rightarrow> error + state" where
  "capture_screenshots e timestamps output_dir max_retries fs =
     (let dir = resolve_dir e output_dir
      in if \<not> makedirs_ok e then Inl OSError
         else
           (case duration_check e timestamps of
              Unreadable \<Rightarrow> Inr \<lparr>images = [], files = fs, log = [CannotOpen]\<rparr>
            | ProbeException \<Rightarrow>
                (case capture_loop e dir max_retries 1 timestamps
                        \<lparr>images = [], files = fs, log = [DurationUnknown]\<rparr> of
                   Inl err \<Rightarrow> Inl err
                 | Inr s \<Rightarrow> Inr (finish (length timestamps) s))
            | Duration duration \<Rightarrow>
                (let valid = valid_timestamps duration timestamps;
                     warn = (if length valid < length timestamps
                             then [OutsideDuration (length timestamps - length valid)]
                             else [])
                 in if valid = []
                    then Inr \<lparr>images = [], files = fs, log = warn @ [NoValidTimestamps]\<rparr>
                    else (case capture_loop e dir max_retries 1 valid
                                 \<lparr>images = [], files = fs, log = warn\<rparr> of
                            Inl err \<Rightarrow> Inl err
                          | Inr s \<Rightarrow> Inr (finish (length valid) s)))))"

text \<open>What the log says: the timestamps the loop went through, and the passes per index.\<close>

fun processed :: "event list \<Rightarrow> (nat \<times> real) list" where
  "processed [] = []"
| "processed (Captured i t # evs) = (i, t) # processed evs"
| "processed (Failed i t # evs) = (i, t) # processed evs"
| "processed (_ # evs) = processed evs"

fun captured :: "event list \<Rightarrow> (nat \<times> real) list" where
  "captured [] = []"
| "captured (Captured i t # evs) = (i, t) # captured evs"
| "captured (_ # evs) = captured evs"

fun attempts :: "nat \<Rightarrow> event list \<Rightarrow> nat" where
  "attempts i [] = 0"
| "attempts i (Attempt j t # evs) = (if i = j then Suc (attempts i evs) else attempts i evs)"
| "attempts i (_ # evs) = attempts i evs"

text \<open>
  Every pass on a timestamp fails: the passes \<open>retry, retry + 1, ...\<close> (\<open>n\<close> of them),
  run one after the other from the file system \<open>fs\<close>, all end without an image.
\<close>

fun all_fail :: "env \<Rightarrow> path \<Rightarrow> nat \<Rightarrow> real \<Rightarrow> nat \<Rightarrow> nat \<Rightarrow> fs \<Rightarrow> bool" where
  "all_fail e img i t retry 0 fs = True"
| "all_fail e img i t retry (Suc n) fs =
     (if \<not> timedelta_ok (py_int t) then all_fail e img i t (Suc retry) n fs
      else
        (let r = attempt (float_mul e) (tool e i retry) (decoder e i retry) img t fs
         in \<not> fst r \<and> all_fail e img i t (Suc retry) n (snd r)))"

text \<open>The image list holds the paths of the captured timestamps, in the order of the log.\<close>

definition consistent :: "path \<Rightarrow> state \<Rightarrow> bool" where
  "consistent d s = (images s = map (\<lambda>(i, t). img_path d i t) (captured (log s)))"

text \<open>The list the capture loop runs over, and the state in which it starts.\<close>

definition loop_input :: "env \<Rightarrow> real list \<Rightarrow> real list" where
  "loop_input e timestamps =
     (case duration_check e timestamps of
        ProbeException \<Rightarrow> timestamps
      | Unreadable \<Rightarrow> []
      | Duration duration \<Rightarrow> valid_timestamps duration timestamps)"

definition loop_start :: "env \<Rightarrow> real list \<Rightarrow> fs \<Rightarrow> state" where
  "loop_start e timestamps fs =
     \<lparr>images = [], files = fs,
      log = (case duration_check e timestamps of
               ProbeException \<Rightarrow> [DurationUnknown]
             | Unreadable \<Rightarrow> []
             | Duration duration \<Rightarrow>
                 (let valid = valid_timestamps duration timestamps
                  in if length valid < length timestamps
                     then [OutsideDuration (length timestamps - length valid)]
                     else []))\<rparr>"




section \<open>create_pdf and the command-line run\<close>

definition sanitize_title :: "nat list \<Rightarrow> nat list" where
  \<comment> \<open>lines 71-79, on the code points of the title; 95 is the underscore\<close>
  "sanitize_title title = map (\<lambda>c. if c < 128 then c else 95) title"

definition title_lines :: "nat list \<Rightarrow> nat list list" where
  \<comment> \<open>line 329: \<^verbatim>\<open>[s[i:i+45] for i in range(0, len(s), 45)]\<close>\<close>
  "title_lines s = map (\<lambda>k. take 45 (drop (45 * k) s)) [0..<(length s + 44) div 45]"

definition dirname :: "path \<Rightarrow> path" where
  \<comment> \<open>\<^verbatim>\<open>os.path.dirname\<close> of posixpath\<close>
  "dirname p =
     (let head = rev (dropWhile (\<lambda>c. c \<noteq> CHR ''/'') (rev p))
      in if head \<noteq> [] \<and> head \<noteq> replicate (length head) CHR ''/''
         then rev (dropWhile (\<lambda>c. c = CHR ''/'') (rev head))
         else head)"

definition load_image :: "fs \<Rightarrow> path \<Rightarrow> image option" where
  \<comment> \<open>\<^verbatim>\<open>pdf.image(img_path, ...)\<close> raises unless the file is there and is an image\<close>
  "load_image fs p = (case fs p of Some (ImageFile im) \<Rightarrow> Some im | _ \<Rightarrow> None)"

definition remove_file :: "env \<Rightarrow> path \<Rightarrow> fs \<Rightarrow> fs" where
  \<comment> \<open>lines 347-350: \<^verbatim>\<open>os.remove\<close>, an OSError only printed\<close>
  "remove_file e p fs = (if fs p \<noteq> None \<and> remove_ok e p then fs(p := None) else fs)"

definition output_path :: "env \<Rightarrow> path \<Rightarrow> path" where
  \<comment> \<open>lines 300-301: a bare file name goes under the directory PDF of the working directory\<close>
  "output_path e output_pdf =
     (if dirname output_pdf = []
      then path_join (path_join (cwd e) ''PDF'') output_pdf
      else output_pdf)"

fun flow :: "real \<Rightarrow> real \<Rightarrow> (real \<times> cell) list \<Rightarrow> cell list \<Rightarrow> real \<Rightarrow> page list" where
  \<comment> \<open>\<^verbatim>\<open>pdf.cell(0, h, ..., ln=True)\<close> for each cell of a list, from the height \<open>y\<close> on
      the current page: a cell that would end below the trigger goes to the top of a new
      page (the automatic page break of the library), and the next cell starts below it\<close>
  "flow margin trigger [] cur y = [TextPage cur]"
| "flow margin trigger ((h, c) # cs) cur y =
     (if y + h > trigger then TextPage cur # flow margin trigger cs [c] (margin + h)
      else flow margin trigger cs (cur @ [c]) (y + h))"

definition title_cells :: "nat list \<Rightarrow> nat \<Rightarrow> (real \<times> cell) list" where
  \<comment> \<open>lines 324-335: the heading, the lines of the title, the number of images\<close>
  "title_cells video_title n =
     (60, Heading) # map (\<lambda>l. (30, TitleLine l)) (title_lines (sanitize_title video_title))
       @ [(40, Count n)]"

definition title_section :: "env \<Rightarrow> nat list \<Rightarrow> nat \<Rightarrow> page list" where
  \<comment> \<open>lines 320-335\<close>
  "title_section e video_title n =
     flow (top_margin e) (page_break_trigger e) (title_cells video_title n) [] (top_margin e)"

definition create_pdf :: "env \<Rightarrow> path list \<Rightarrow> nat list \<Rightarrow> path \<Rightarrow> fs \<Rightarrow> bool \<times> fs" where
  "create_pdf e image_paths video_title output_pdf fs =
     (let out = output_path e output_pdf
      in if \<not> pdf_dir_ok e then (False, fs)
         else
           (case those (map (load_image fs) image_paths) of
              None \<Rightarrow> (False, fs)
            | Some imgs \<Rightarrow>
                (let doc = title_section e video_title (length image_paths)
                             @ map ImagePage imgs
                 in case pdf_output e of
                      WriteFailed left \<Rightarrow>
                        (False, case left of None \<Rightarrow> fs | Some c \<Rightarrow> fs(out \<mapsto> c))
                    | Written \<Rightarrow>
                        (True, fold (remove_file e) image_paths (fs(out \<mapsto> Document doc))))))"



text \<open>
  A concrete environment for evaluation: a local file of 3600 frames at 30 frames per
  second (120 seconds), an external tool that always writes its frame, a decoder that
  does not open, a file system that allows everything, and the page layout of the
  library for A4 landscape in points (a top margin of 28.35, a page height of 595.28
  less the bottom margin of 56.7). On the numbers used with it the product of floats is
  exact. In \<open>stream_env\<close> the source is a stream whose reported position is 0, and in
  \<open>failing_second\<close> the external tool ends with return code 1 and no file for the
  second timestamp.
\<close>

definition every_frame :: "int \<Rightarrow> bool" where
  "every_frame pos = True"

definition failing_second :: "nat \<Rightarrow> nat \<Rightarrow> tool" where
  "failing_second i retry = (if i = 2 then ToolExit 1 Nothing else ToolExit 0 FrameOutput)"

definition example_env :: env where
  "example_env =
     \<lparr>cwd = ''/work'', makedirs_ok = True, is_local_file = True,
      probe_source = SourceOpen 30 3600 0,
      tool = (\<lambda>i retry. ToolExit 0 FrameOutput),
      decoder = (\<lambda>i retry. DecoderClosed),
      float_mul = (*),
      pdf_dir_ok = True, pdf_output = Written, remove_ok = (\<lambda>p. True),
      top_margin = 28.35, page_break_trigger = 538.58\<rparr>"

definition stream_env :: env where
  "stream_env = example_env\<lparr>is_local_file := False, probe_source := SourceOpen 30 0 0\<rparr>"

section \<open>Interval mode\<close>

lemma py_int_le: "0 \<le> x \<Longrightarrow> real_of_int (py_int x) \<le> x"
  by (simp add: py_int_def)

lemma py_int_nonneg: "0 \<le> x \<Longrightarrow> 0 \<le> py_int x"
  by (simp add: py_int_def)

lemma le_py_int_iff: "0 \<le> x \<Longrightarrow> real_of_int k \<le> x \<longleftrightarrow> k \<le> py_int x"
  by (simp add: py_int_def le_floor_iff)

lemma gen_bound:
  assumes "0 < interval" "0 \<le> duration" "k \<le> nat (py_int duration div interval)"
  shows "real_of_int (int k * interval) \<le> duration"
proof -
  have d: "0 \<le> py_int duration" using assms(2) by (rule py_int_nonneg)
  have "int k \<le> py_int duration div interval" using assms(3) d assms(1)
    by (simp add: pos_imp_zdiv_nonneg_iff nat_le_iff le_nat_iff)
  then have "int k * interval \<le> (py_int duration div interval) * interval"
    using assms(1) by (simp add: mult_right_mono)
  also have "\<dots> \<le> py_int duration" using assms(1)
    by (simp add: minus_mod_eq_div_mult [symmetric])
  finally have "int k * interval \<le> py_int duration" .
  then show ?thesis using le_py_int_iff[OF assms(2), of "int k * interval"] by blast
qed

lemma gen_complete:
  assumes "0 < interval" "0 \<le> duration" "real_of_int (int k * interval) \<le> duration"
  shows "k \<le> nat (py_int duration div interval)"
proof -
  have "int k * interval \<le> py_int duration"
    using le_py_int_iff[OF assms(2), of "int k * interval"] assms(3) by blast
  then have "int k \<le> py_int duration div interval"
    using assms(1) zdiv_mono1[of "int k * interval" "py_int duration" interval] by simp
  then show ?thesis by simp
qed

section \<open>The duration check\<close>

lemma foldl_max_ge: "t \<in> insert a (set xs) \<Longrightarrow> t \<le> foldl max (a::real) xs"
proof (induction xs arbitrary: a t)
  case Nil then show ?case by simp
next
  case (Cons x xs)
  have m: "max a x \<le> foldl max (max a x) xs"
    by (rule Cons.IH) simp
  have "t \<in> set xs \<Longrightarrow> t \<le> foldl max (max a x) xs"
    by (rule Cons.IH) simp
  with m Cons.prems show ?case by auto
qed

lemma foldl_max_mem: "foldl max (a::real) xs \<in> insert a (set xs)"
proof (induction xs arbitrary: a)
  case Nil then show ?case by simp
next
  case (Cons x xs)
  show ?case using Cons[of "max a x"] by (auto simp: max_def split: if_splits)
qed

lemma max_list_ge: "t \<in> set ts \<Longrightarrow> t \<le> max_list ts"
  by (cases ts) (use foldl_max_ge in auto)

lemma max_list_mem: "ts \<noteq> [] \<Longrightarrow> max_list ts \<in> set ts"
  by (cases ts) (use foldl_max_mem in auto)

lemma max_list_Max: "ts \<noteq> [] \<Longrightarrow> max_list ts = Max (set ts)"
  by (rule sym, rule Max_eqI) (simp_all add: max_list_ge max_list_mem)

lemma max_list_pos: "ts \<noteq> [] \<Longrightarrow> 0 < max_list ts \<longleftrightarrow> (\<exists>t \<in> set ts. 0 < t)"
  by (simp add: max_list_Max Max_gr_iff)

section \<open>The capture loop\<close>

lemma timedelta_ok_mono:
  assumes "0 \<le> t" "t \<le> d" "timedelta_ok (py_int d)"
  shows "timedelta_ok (py_int t)"
proof -
  have a: "0 \<le> py_int t" using assms(1) by (rule py_int_nonneg)
  have b: "py_int t \<le> py_int d" using assms(1,2) by (simp add: py_int_def floor_mono)
  have "0 \<le> py_int t div 86400" using a by (simp add: pos_imp_zdiv_nonneg_iff)
  moreover have "py_int t div 86400 \<le> py_int d div 86400" using b by (rule zdiv_mono1) simp
  ultimately show ?thesis using assms(3) by (simp add: timedelta_ok_def)
qed

lemma processed_append: "processed (xs @ ys) = processed xs @ processed ys"
  by (induction xs rule: processed.induct) simp_all

lemma captured_append: "captured (xs @ ys) = captured xs @ captured ys"
  by (induction xs rule: captured.induct) simp_all

lemma attempts_append: "attempts i (xs @ ys) = attempts i xs + attempts i ys"
  by (induction i xs rule: attempts.induct) simp_all

lemma attempts_replicate: "attempts j (replicate n (Attempt i t)) = (if j = i then n else 0)"
  by (induction n) auto

lemma processed_replicate: "processed (replicate n (Attempt i t)) = []"
  by (induction n) simp_all

lemma captured_replicate: "captured (replicate n (Attempt i t)) = []"
  by (induction n) simp_all

lemma subseq_captured: "subseq (captured l) (processed l)"
  by (induction l rule: processed.induct) auto

lemma retries_overflow:
  "\<not> timedelta_ok (py_int t) \<Longrightarrow> retries e img i t retry n s = (False, s)"
  by (induction n arbitrary: retry) simp_all

lemma retries_all_fail:
  "fst (retries e img i t retry n s) \<longleftrightarrow> \<not> all_fail e img i t retry n (files s)"
  by (induction n arbitrary: retry s) (simp_all add: Let_def)

lemma retries_images:
  "images (snd (retries e img i t retry n s)) =
     images s @ (if fst (retries e img i t retry n s) then [img] else [])"
  by (induction n arbitrary: retry s) (simp_all add: Let_def)

lemma retries_log:
  assumes ok: "timedelta_ok (py_int t)"
  shows "\<exists>k. k \<le> n \<and> (fst (retries e img i t retry n s) \<longrightarrow> 0 < k) \<and>
        (\<not> fst (retries e img i t retry n s) \<longrightarrow> k = n) \<and>
        log (snd (retries e img i t retry n s)) =
          log s @ replicate k (Attempt i t) @
            (if fst (retries e img i t retry n s) then [Captured i t] else [])"
proof (induction n arbitrary: retry s)
  case 0
  then show ?case by simp
next
  case (Suc n)
  let ?s1 = "s\<lparr>log := log s @ [Attempt i t]\<rparr>"
  let ?r = "attempt (float_mul e) (tool e i retry) (decoder e i retry) img t (files ?s1)"
  show ?case
  proof (cases "fst ?r")
    case True
    then show ?thesis using ok
      by (intro exI[of _ 1]) (simp add: Let_def)
  next
    case False
    let ?s2 = "?s1\<lparr>files := snd ?r\<rparr>"
    from Suc.IH[of "Suc retry" ?s2] obtain k where k: "k \<le> n"
      "fst (retries e img i t (Suc retry) n ?s2) \<longrightarrow> 0 < k"
      "\<not> fst (retries e img i t (Suc retry) n ?s2) \<longrightarrow> k = n"
      "log (snd (retries e img i t (Suc retry) n ?s2)) =
          log ?s2 @ replicate k (Attempt i t) @
            (if fst (retries e img i t (Suc retry) n ?s2) then [Captured i t] else [])"
      by blast
    have eq: "retries e img i t retry (Suc n) s = retries e img i t (Suc retry) n ?s2"
      using False ok by (simp add: Let_def)
    show ?thesis
      unfolding eq using k
      by (intro exI[of _ "Suc k"]) (simp add: replicate_app_Cons_same)
  qed
qed

lemma capture_one_Inr:
  "capture_one e d m i t s = Inr s' \<longleftrightarrow>
     timedelta_ok (py_int t) \<and>
     s' = (if fst (retries e (img_path d i t) i t 0 m s)
           then snd (retries e (img_path d i t) i t 0 m s)
           else (snd (retries e (img_path d i t) i t 0 m s))
                  \<lparr>log := log (snd (retries e (img_path d i t) i t 0 m s)) @ [Failed i t]\<rparr>)"
  by (cases "timedelta_ok (py_int t)") (auto simp: capture_one_def Let_def retries_overflow)

lemma capture_one_overflow:
  "\<not> timedelta_ok (py_int t) \<Longrightarrow> capture_one e d m i t s = Inl OverflowError"
  by (simp add: capture_one_def Let_def retries_overflow)

lemma capture_one_returns:
  "timedelta_ok (py_int t) \<Longrightarrow> \<exists>s'. capture_one e d m i t s = Inr s'"
  by (simp add: capture_one_Inr)

lemma capture_one_log:
  assumes "capture_one e d m i t s = Inr s'"
  shows "\<exists>k ok. k \<le> m \<and> (\<not> ok \<longrightarrow> k = m) \<and>
      ok = (\<not> all_fail e (img_path d i t) i t 0 m (files s)) \<and>
      log s' = log s @ replicate k (Attempt i t) @ [if ok then Captured i t else Failed i t] \<and>
      images s' = images s @ (if ok then [img_path d i t] else [])"
proof -
  let ?r = "retries e (img_path d i t) i t 0 m s"
  have ok: "timedelta_ok (py_int t)"
    and s': "s' = (if fst ?r then snd ?r else (snd ?r)\<lparr>log := log (snd ?r) @ [Failed i t]\<rparr>)"
    using assms by (simp_all add: capture_one_Inr)
  from retries_log[OF ok, of m e "img_path d i t" i 0 s] obtain k where k: "k \<le> m"
    "\<not> fst ?r \<longrightarrow> k = m"
    "log (snd ?r) = log s @ replicate k (Attempt i t) @ (if fst ?r then [Captured i t] else [])"
    by blast
  show ?thesis
    using k retries_images[of e "img_path d i t" i t 0 m s]
      retries_all_fail[of e "img_path d i t" i t 0 m s]
    by (intro exI[of _ k] exI[of _ "fst ?r"]) (simp add: s')
qed

lemma capture_one_processed:
  "capture_one e d m i t s = Inr s' \<Longrightarrow> processed (log s') = processed (log s) @ [(i, t)]"
  using capture_one_log[of e d m i t s s']
  by (auto simp: processed_append processed_replicate)

lemma capture_one_attempts:
  "capture_one e d m i t s = Inr s' \<Longrightarrow> j \<noteq> i \<Longrightarrow> attempts j (log s') = attempts j (log s)"
  using capture_one_log[of e d m i t s s']
  by (auto simp: attempts_append attempts_replicate)

lemma capture_one_consistent:
  "capture_one e d m i t s = Inr s' \<Longrightarrow> consistent d s \<Longrightarrow> consistent d s'"
  using capture_one_log[of e d m i t s s']
  by (auto simp: consistent_def captured_append captured_replicate)

lemma capture_loop_Cons:
  "capture_loop e d m i (t # ts) s = Inr s' \<longleftrightarrow>
     (\<exists>s1. capture_one e d m i t s = Inr s1 \<and> capture_loop e d m (Suc i) ts s1 = Inr s')"
  by (simp split: sum.splits)

lemma capture_loop_append:
  "capture_loop e d m i (xs @ ys) s =
     (case capture_loop e d m i xs s of
        Inl err \<Rightarrow> Inl err
      | Inr s' \<Rightarrow> capture_loop e d m (i + length xs) ys s')"
  by (induction xs arbitrary: i s) (simp_all split: sum.splits)

lemma capture_loop_returns:
  "(\<forall>t \<in> set ts. timedelta_ok (py_int t)) \<Longrightarrow> \<exists>s'. capture_loop e d m i ts s = Inr s'"
proof (induction ts arbitrary: i s)
  case Nil
  then show ?case by simp
next
  case (Cons t ts)
  then obtain s1 where s1: "capture_one e d m i t s = Inr s1"
    using capture_one_returns[of t e d m i s] by auto
  from Cons.IH[of "Suc i" s1] Cons.prems obtain s' where
    "capture_loop e d m (Suc i) ts s1 = Inr s'" by auto
  then show ?case using s1 by simp
qed

lemma capture_loop_overflow:
  "\<not> (\<forall>t \<in> set ts. timedelta_ok (py_int t)) \<Longrightarrow> capture_loop e d m i ts s = Inl OverflowError"
proof (induction ts arbitrary: i s)
  case Nil
  then show ?case by simp
next
  case (Cons t ts)
  show ?case
  proof (cases "timedelta_ok (py_int t)")
    case False
    then show ?thesis by (simp add: capture_one_overflow)
  next
    case True
    then obtain s1 where s1: "capture_one e d m i t s = Inr s1"
      using capture_one_returns[of t e d m i s] by auto
    have "\<not> (\<forall>t \<in> set ts. timedelta_ok (py_int t))" using True Cons.prems by simp
    from Cons.IH[OF this, of "Suc i" s1] show ?thesis using s1 by simp
  qed
qed

lemma capture_loop_processed:
  "capture_loop e d m i ts s = Inr s' \<Longrightarrow>
     processed (log s') = processed (log s) @ zip [i..<i + length ts] ts"
proof (induction ts arbitrary: i s)
  case Nil then show ?case by simp
next
  case (Cons t ts)
  from Cons.prems obtain s1 where s1: "capture_one e d m i t s = Inr s1"
    "capture_loop e d m (Suc i) ts s1 = Inr s'" unfolding capture_loop_Cons by blast
  have "[i..<i + length (t # ts)] = i # [Suc i..<Suc i + length ts]"
    by (simp add: upt_rec)
  then show ?case using Cons.IH[OF s1(2)] capture_one_processed[OF s1(1)] by simp
qed

lemma capture_loop_attempts:
  "capture_loop e d m i ts s = Inr s' \<Longrightarrow> j < i \<or> i + length ts \<le> j \<Longrightarrow>
     attempts j (log s') = attempts j (log s)"
proof (induction ts arbitrary: i s)
  case Nil then show ?case by simp
next
  case (Cons t ts)
  from Cons.prems(1) obtain s1 where s1: "capture_one e d m i t s = Inr s1"
    "capture_loop e d m (Suc i) ts s1 = Inr s'" unfolding capture_loop_Cons by blast
  have "j \<noteq> i" "j < Suc i \<or> Suc i + length ts \<le> j" using Cons.prems(2) by auto
  then show ?case using Cons.IH[OF s1(2)] capture_one_attempts[OF s1(1)] by simp
qed

lemma capture_loop_consistent:
  "capture_loop e d m i ts s = Inr s' \<Longrightarrow> consistent d s \<Longrightarrow> consistent d s'"
proof (induction ts arbitrary: i s)
  case Nil then show ?case by simp
next
  case (Cons t ts)
  from Cons.prems(1) obtain s1 where s1: "capture_one e d m i t s = Inr s1"
    "capture_loop e d m (Suc i) ts s1 = Inr s'" unfolding capture_loop_Cons by blast
  show ?case
    using Cons.IH[OF s1(2)] capture_one_consistent[OF s1(1) Cons.prems(2)] by simp
qed

lemma duration_check_cases:
  "duration_check e ts = Unreadable \<longleftrightarrow> probe e ts = Unreadable"
  "duration_check e ts = Duration d \<longleftrightarrow> probe e ts = Duration d \<and> timedelta_ok (py_int d)"
  by (cases "probe e ts"; auto simp: duration_check_def)+

lemma capture_screenshots_loop:
  assumes "makedirs_ok e" "duration_check e ts \<noteq> Unreadable"
    "duration_check e ts = ProbeException \<or> loop_input e ts \<noteq> []"
  shows "capture_screenshots e ts od m fs =
           (case capture_loop e (resolve_dir e od) m 1 (loop_input e ts) (loop_start e ts fs) of
              Inl err \<Rightarrow> Inl err
            | Inr s \<Rightarrow> Inr (finish (length (loop_input e ts)) s))"
  using assms
  by (cases "duration_check e ts")
    (simp_all add: capture_screenshots_def loop_input_def loop_start_def Let_def
      cong: sum.case_cong)

lemma processed_finish: "processed (log (finish n s)) = processed (log s)"
  by (simp add: finish_def processed_append)

lemma enumerate_snd: "map snd (zip [i..<i + length ts] ts) = ts"
  by (simp add: map_snd_zip)

lemma loop_start_facts:
  "images (loop_start e ts fs) = []" "files (loop_start e ts fs) = fs"
  "processed (log (loop_start e ts fs)) = []" "captured (log (loop_start e ts fs)) = []"
  "attempts i (log (loop_start e ts fs)) = 0"
  by (cases "duration_check e ts"; simp add: loop_start_def Let_def)+

lemma loop_processed:
  assumes "capture_loop e d m 1 ts (loop_start e' ts' fs) = Inr s"
  shows "map snd (processed (log (finish n s))) = ts"
  using capture_loop_processed[OF assms]
  by (simp add: processed_finish loop_start_facts enumerate_snd del: upt_Suc)

lemma valid_timestamps_ok:
  "timedelta_ok (py_int d) \<Longrightarrow> \<forall>t \<in> set (valid_timestamps d ts). timedelta_ok (py_int t)"
  by (auto simp: valid_timestamps_def intro: timedelta_ok_mono)

section \<open>Claims on the timestamps\<close>

text \<open>
  C9. In interval mode (an interval above zero, as both callers check, and a duration
  that is not negative) \<^const>\<open>generate_interval_timestamps\<close> returns the multiples
  \<open>0, interval, 2 * interval, ...\<close> of the interval: the list is not empty, every entry
  is at most the duration, neighbours differ by exactly the interval, and every multiple
  that is at most the duration is in the list. For an interval of 30 and a duration of
  95 the list is \<open>[0, 30, 60, 90]\<close>.
\<close>

theorem interval_timestamps:
  assumes "0 < interval" "0 \<le> duration"
  shows "\<exists>ts. generate_interval_timestamps duration interval = Inr ts
           \<and> ts = map (\<lambda>k. int k * interval) [0..<length ts]
           \<and> 0 < length ts
           \<and> (\<forall>t \<in> set ts. real_of_int t \<le> duration)
           \<and> (\<forall>k. Suc k < length ts \<longrightarrow> ts ! Suc k - ts ! k = interval)
           \<and> (\<forall>k. real_of_int (int k * interval) \<le> duration \<longrightarrow> int k * interval \<in> set ts)
           \<and> generate_interval_timestamps 95 30 = Inr [0, 30, 60, 90]"
proof -
  let ?n = "Suc (nat (py_int duration div interval))"
  let ?ts = "map (\<lambda>k. int k * interval) [0..<?n]"
  have d: "0 \<le> py_int duration" using assms(2) by (rule py_int_nonneg)
  then have "0 \<le> py_int duration div interval"
    using assms(1) by (simp add: pos_imp_zdiv_nonneg_iff)
  then have "nat (py_int duration div interval + 1) = ?n" by simp
  with assms d have eq: "generate_interval_timestamps duration interval = Inr ?ts"
    by (simp add: generate_interval_timestamps_def py_range_def)
  have len: "length ?ts = ?n" by simp
  have b: "\<forall>t \<in> set ?ts. real_of_int t \<le> duration"
  proof
    fix t assume "t \<in> set ?ts"
    then obtain k where "k < ?n" "t = int k * interval" by (auto simp del: upt_Suc)
    then show "real_of_int t \<le> duration"
      using gen_bound[OF assms, of k] by (simp add: less_Suc_eq_le)
  qed
  have c: "\<forall>k. Suc k < length ?ts \<longrightarrow> ?ts ! Suc k - ?ts ! k = interval"
    by (simp add: algebra_simps del: upt_Suc)
  have f: "\<forall>k. real_of_int (int k * interval) \<le> duration \<longrightarrow> int k * interval \<in> set ?ts"
  proof (intro allI impI)
    fix k assume "real_of_int (int k * interval) \<le> duration"
    then have "k < ?n" using gen_complete[OF assms] by (simp add: less_Suc_eq_le)
    then show "int k * interval \<in> set ?ts" by (auto simp del: upt_Suc)
  qed
  have g: "generate_interval_timestamps 95 30 = Inr [0, 30, 60, 90]"
    by (simp add: generate_interval_timestamps_def py_range_def py_int_def upt_rec)
  have self: "?ts = map (\<lambda>k. int k * interval) [0..<length ?ts]" by (simp del: upt_Suc)
  show ?thesis
    apply (rule exI[of _ ?ts])
    using eq self b c f g by (simp del: upt_Suc)
qed

theorem interval_timestamps_witness:
  "(0::int) < 30 \<and> (0::real) \<le> 95 \<and>
   (\<exists>ts. generate_interval_timestamps 95 30 = Inr ts \<and> (\<forall>t \<in> set ts. real_of_int t \<le> 95)
         \<and> (\<forall>k. Suc k < length ts \<longrightarrow> ts ! Suc k - ts ! k = 30))"
  using interval_timestamps[of 30 95] by auto

text \<open>
  C2. When the decoder opens the source, the duration is found in this order: for a
  local file whose frame rate and frame count (as \<^verbatim>\<open>total_frames\<close>, the count
  truncated to an int) are both positive, it is frame count / frame rate; otherwise it
  is the position the decoder reports, in seconds; and when that is not positive and
  some requested timestamp is positive, it is the largest requested timestamp plus 60.
  (When that is not positive and no requested timestamp is positive, the reported
  position stays.)
\<close>

theorem duration_cascade:
  assumes "probe_source e = SourceOpen fps frame_count pos_msec"
  shows "(is_local_file e \<and> 0 < fps \<and> 0 < py_int frame_count \<longrightarrow>
            probe e ts = Duration (real_of_int (py_int frame_count) / fps))
       \<and> (\<not> (is_local_file e \<and> 0 < fps \<and> 0 < py_int frame_count) \<and> 0 < pos_msec / 1000 \<longrightarrow>
            probe e ts = Duration (pos_msec / 1000))
       \<and> (\<not> (is_local_file e \<and> 0 < fps \<and> 0 < py_int frame_count) \<and> pos_msec / 1000 \<le> 0
            \<and> (\<exists>t \<in> set ts. 0 < t) \<longrightarrow>
            probe e ts = Duration (Max (set ts) + 60))
       \<and> (\<not> (is_local_file e \<and> 0 < fps \<and> 0 < py_int frame_count) \<and> pos_msec / 1000 \<le> 0
            \<and> \<not> (\<exists>t \<in> set ts. 0 < t) \<longrightarrow>
            probe e ts = Duration (pos_msec / 1000))"
proof -
  have m: "ts \<noteq> [] \<Longrightarrow> max_list ts = Max (set ts)" by (rule max_list_Max)
  have p: "ts \<noteq> [] \<Longrightarrow> 0 < max_list ts \<longleftrightarrow> (\<exists>t \<in> set ts. 0 < t)" by (rule max_list_pos)
  show ?thesis
  proof (cases "ts = []")
    case True
    then show ?thesis using assms by (simp add: probe_def Let_def)
  next
    case False
    then show ?thesis using assms m[OF False] p[OF False]
      by (auto simp add: probe_def Let_def)
  qed
qed

theorem duration_cascade_witness:
  "probe example_env [10, 60, 130] = Duration 120
   \<and> probe (example_env\<lparr>is_local_file := False, probe_source := SourceOpen 30 0 5000\<rparr>) [10, 60, 130] = Duration 5
   \<and> probe (example_env\<lparr>is_local_file := False, probe_source := SourceOpen 30 0 0\<rparr>) [10, 60, 130] = Duration 190"
  using duration_cascade[of example_env 30 3600 0 "[10, 60, 130]"]
    duration_cascade[of "example_env\<lparr>is_local_file := False, probe_source := SourceOpen 30 0 5000\<rparr>" 30 0 5000 "[10, 60, 130]"]
    duration_cascade[of "example_env\<lparr>is_local_file := False, probe_source := SourceOpen 30 0 0\<rparr>" 30 0 0 "[10, 60, 130]"]
  by (simp add: example_env_def py_int_def)

text \<open>
  C1. For every list of requested timestamps and every duration, the validation of
  line 202 gives a subsequence of the input (so the order of the input is kept, and an
  ascending input gives an ascending output), every element of which lies between 0 and
  the duration; its elements are exactly the elements of the input in that range, so
  entries out of range are dropped and none is changed. When the duration check of
  \<^const>\<open>capture_screenshots\<close> gives a duration and reaches the validation (the message
  of line 200, which formats the duration as a \<^verbatim>\<open>timedelta\<close>, comes first), the call
  returns and the loop has gone through exactly this list.
\<close>

theorem timestamp_validation:
  "subseq (valid_timestamps duration timestamps) timestamps
   \<and> (\<forall>t \<in> set (valid_timestamps duration timestamps). 0 \<le> t \<and> t \<le> duration)
   \<and> set (valid_timestamps duration timestamps) = {t \<in> set timestamps. 0 \<le> t \<and> t \<le> duration}
   \<and> (sorted timestamps \<longrightarrow> sorted (valid_timestamps duration timestamps))
   \<and> (makedirs_ok e \<and> probe e timestamps = Duration duration \<and> timedelta_ok (py_int duration) \<longrightarrow>
        (\<exists>s. capture_screenshots e timestamps output_dir max_retries fs = Inr s
            \<and> map snd (processed (log s)) = valid_timestamps duration timestamps))"
proof -
  have run: "\<exists>s. capture_screenshots e timestamps output_dir max_retries fs = Inr s
            \<and> map snd (processed (log s)) = valid_timestamps duration timestamps"
    if mk: "makedirs_ok e" and pr: "probe e timestamps = Duration duration"
      and ok: "timedelta_ok (py_int duration)"
  proof (cases "valid_timestamps duration timestamps = []")
    case True
    have dc: "duration_check e timestamps = Duration duration"
      using pr ok by (simp add: duration_check_cases)
    show ?thesis using mk dc True
      by (simp add: capture_screenshots_def Let_def processed_append)
  next
    case False
    let ?v = "valid_timestamps duration timestamps"
    have dc: "duration_check e timestamps = Duration duration"
      using pr ok by (simp add: duration_check_cases)
    have li: "loop_input e timestamps = ?v"
      using dc by (simp add: loop_input_def)
    have "\<forall>t \<in> set ?v. timedelta_ok (py_int t)" using ok by (rule valid_timestamps_ok)
    then obtain s1 where s1:
      "capture_loop e (resolve_dir e output_dir) max_retries 1 ?v (loop_start e timestamps fs) = Inr s1"
      using capture_loop_returns by blast
    have "capture_screenshots e timestamps output_dir max_retries fs = Inr (finish (length ?v) s1)"
      using capture_screenshots_loop[of e timestamps output_dir max_retries fs] mk dc False li s1
      by simp
    then show ?thesis using loop_processed[OF s1, of "length ?v"] by simp
  qed
  show ?thesis
    using run by (auto simp: valid_timestamps_def sorted_filter[of id, simplified])
qed

theorem timestamp_validation_witness:
  "makedirs_ok example_env \<and> probe example_env [10, 60, 130] = Duration 120
   \<and> timedelta_ok (py_int 120) \<and> sorted [10, 60, 130 :: real]
   \<and> valid_timestamps 120 [10, 60, 130] = [10, 60]
   \<and> sorted (valid_timestamps 120 [10, 60, 130])
   \<and> (\<exists>s. capture_screenshots example_env [10, 60, 130] ''shots'' 3 Map.empty = Inr s
          \<and> map snd (processed (log s)) = [10, 60])"
proof -
  have p: "probe example_env [10, 60, 130] = Duration 120"
    by (simp add: probe_def example_env_def py_int_def)
  have m: "makedirs_ok example_env" by (simp add: example_env_def)
  have v: "valid_timestamps 120 [10, 60, 130] = [10, 60]" by (simp add: valid_timestamps_def)
  have ok: "timedelta_ok (py_int 120)" by (simp add: timedelta_ok_def py_int_def)
  show ?thesis
    using timestamp_validation[of 120 "[10, 60, 130]" example_env "''shots''" 3 Map.empty] p m v ok
    by simp
qed

text \<open>
  C8. When no timestamp is left after the validation, \<^const>\<open>capture_screenshots\<close>
  reports \<open>NoValidTimestamps\<close> and returns the empty image list: no pass of the capture
  loop is made, no timestamp is processed and the files are untouched. (The validation
  is reached when the duration check gives a duration and the message of line 200 has
  formatted it as a \<^verbatim>\<open>timedelta\<close>.) When the source cannot be opened, it returns the
  empty image list with the files untouched, after the one message that the source
  cannot be opened.
\<close>

theorem no_valid_timestamps:
  assumes "makedirs_ok e"
  shows "(probe e ts = Duration d \<and> timedelta_ok (py_int d) \<and> valid_timestamps d ts = [] \<longrightarrow>
            (\<exists>s. capture_screenshots e ts od m fs = Inr s
                \<and> last (log s) = NoValidTimestamps
                \<and> images s = [] \<and> files s = fs
                \<and> processed (log s) = [] \<and> (\<forall>i. attempts i (log s) = 0)))
       \<and> (probe_source e = SourceClosed \<longrightarrow>
            capture_screenshots e ts od m fs = Inr \<lparr>images = [], files = fs, log = [CannotOpen]\<rparr>)"
proof -
  have a: "\<exists>s. capture_screenshots e ts od m fs = Inr s
                \<and> last (log s) = NoValidTimestamps
                \<and> images s = [] \<and> files s = fs
                \<and> processed (log s) = [] \<and> (\<forall>i. attempts i (log s) = 0)"
    if "probe e ts = Duration d" "timedelta_ok (py_int d)" "valid_timestamps d ts = []"
  proof -
    have "duration_check e ts = Duration d" using that by (simp add: duration_check_cases)
    then show ?thesis using assms that(3) by (simp add: capture_screenshots_def Let_def)
  qed
  have b: "capture_screenshots e ts od m fs = Inr \<lparr>images = [], files = fs, log = [CannotOpen]\<rparr>"
    if "probe_source e = SourceClosed"
  proof -
    have "probe e ts = Unreadable" using that by (simp add: probe_def)
    then have "duration_check e ts = Unreadable" by (simp add: duration_check_cases)
    then show ?thesis using assms by (simp add: capture_screenshots_def Let_def)
  qed
  show ?thesis using a b by blast
qed

theorem no_valid_timestamps_witness:
  "makedirs_ok example_env \<and> probe example_env [130, 150] = Duration 120
   \<and> timedelta_ok (py_int 120) \<and> valid_timestamps 120 [130, 150] = []
   \<and> (\<exists>s. capture_screenshots example_env [130, 150] ''shots'' 3 Map.empty = Inr s
          \<and> last (log s) = NoValidTimestamps \<and> images s = [] \<and> (\<forall>i. attempts i (log s) = 0))
   \<and> capture_screenshots (example_env\<lparr>probe_source := SourceClosed\<rparr>) [10] ''shots'' 3 Map.empty
        = Inr \<lparr>images = [], files = Map.empty, log = [CannotOpen]\<rparr>"
proof -
  have p: "probe example_env [130, 150] = Duration 120"
    by (simp add: probe_def example_env_def py_int_def)
  have m: "makedirs_ok example_env" "makedirs_ok (example_env\<lparr>probe_source := SourceClosed\<rparr>)"
    by (simp_all add: example_env_def)
  have v: "valid_timestamps 120 [130, 150] = []" by (simp add: valid_timestamps_def)
  have ok: "timedelta_ok (py_int 120)" by (simp add: timedelta_ok_def py_int_def)
  show ?thesis
    using no_valid_timestamps[OF m(1), of "[130, 150]" 120 "''shots''" 3 Map.empty]
      no_valid_timestamps[OF m(2), of "[10]" 0 "''shots''" 3 Map.empty] p m v ok
    by auto
qed

text \<open>
  When the duration check raises (the decoder raises, or the message of line 200 cannot
  format the duration), the handler of lines 209-211 hands the requested timestamps to
  the capture loop as they were given: nothing is filtered. The call then returns if
  every timestamp is within the range of \<^verbatim>\<open>timedelta\<close>, and the loop has gone through
  all of them; it raises \<^verbatim>\<open>OverflowError\<close> if one of them is not, because each pass on
  that timestamp ends at the message of line 221 and the message of line 291 is outside
  any \<^verbatim>\<open>try\<close>.
\<close>

lemma unfiltered_loop:
  assumes "makedirs_ok e" "duration_check e ts = ProbeException"
  shows "capture_screenshots e ts od m fs =
           (case capture_loop e (resolve_dir e od) m 1 ts
                   \<lparr>images = [], files = fs, log = [DurationUnknown]\<rparr> of
              Inl err \<Rightarrow> Inl err
            | Inr s \<Rightarrow> Inr (finish (length ts) s))"
  using assms by (simp add: capture_screenshots_def Let_def)

lemma unfiltered_returns:
  assumes "makedirs_ok e" "duration_check e ts = ProbeException"
    "\<forall>t \<in> set ts. timedelta_ok (py_int t)"
  shows "\<exists>s. capture_screenshots e ts od m fs = Inr s \<and> map snd (processed (log s)) = ts"
proof -
  have li: "loop_input e ts = ts" using assms(2) by (simp add: loop_input_def)
  have ls: "loop_start e ts fs = \<lparr>images = [], files = fs, log = [DurationUnknown]\<rparr>"
    using assms(2) by (simp add: loop_start_def)
  obtain s1 where s1: "capture_loop e (resolve_dir e od) m 1 ts (loop_start e ts fs) = Inr s1"
    using capture_loop_returns[OF assms(3)] by blast
  have "capture_screenshots e ts od m fs = Inr (finish (length ts) s1)"
    using unfiltered_loop[OF assms(1,2), of od m fs] s1 ls by simp
  then show ?thesis using loop_processed[OF s1, of "length ts"] by simp
qed

lemma unfiltered_raises:
  assumes "makedirs_ok e" "duration_check e ts = ProbeException"
    "\<not> (\<forall>t \<in> set ts. timedelta_ok (py_int t))"
  shows "capture_screenshots e ts od m fs = Inl OverflowError"
  using unfiltered_loop[OF assms(1,2), of od m fs] capture_loop_overflow[OF assms(3)]
  by simp

lemma timedelta_range:
  "timedelta_ok (py_int 10)" "\<not> timedelta_ok (py_int 100000000000000)"
  "\<not> timedelta_ok (py_int (100000000000000 + 60))"
  by (simp_all add: timedelta_ok_def py_int_def)

text \<open>
  C10. The claim fails on the code. When the decoder raises on the source, the requested
  timestamps 10 and 100000000000000 go to the loop unfiltered, and the run aborts with
  \<^verbatim>\<open>OverflowError\<close> at the second of them. The same happens in a stream whose
  position is reported as 0: the duration is taken to be 100000000000060, the message of
  line 200 raises inside the duration check, and the run aborts in the loop.
\<close>

theorem probe_exception_aborts:
  "duration_check (example_env\<lparr>probe_source := SourceError\<rparr>) [10, 100000000000000]
     = ProbeException
   \<and> capture_screenshots (example_env\<lparr>probe_source := SourceError\<rparr>) [10, 100000000000000]
        ''high_res_screenshots'' 3 Map.empty = Inl OverflowError
   \<and> probe stream_env [10, 100000000000000] = Duration 100000000000060
   \<and> duration_check stream_env [10, 100000000000000] = ProbeException
   \<and> capture_screenshots stream_env [10, 100000000000000] ''high_res_screenshots'' 3 Map.empty
        = Inl OverflowError"
proof -
  let ?e = "example_env\<lparr>probe_source := SourceError\<rparr>"
  have big: "\<not> (\<forall>t \<in> set [10, 100000000000000 :: real]. timedelta_ok (py_int t))"
    using timedelta_range(2) by simp
  have dc: "duration_check ?e [10, 100000000000000] = ProbeException"
    by (simp add: duration_check_def probe_def)
  have m: "makedirs_ok ?e" by (simp add: example_env_def)
  have a: "capture_screenshots ?e [10, 100000000000000] ''high_res_screenshots'' 3 Map.empty
      = Inl OverflowError"
    using m dc big by (rule unfiltered_raises)
  have p: "probe stream_env [10, 100000000000000] = Duration 100000000000060"
    by (simp add: probe_def stream_env_def example_env_def py_int_def)
  have dc': "duration_check stream_env [10, 100000000000000] = ProbeException"
    unfolding duration_check_def p using timedelta_range(3) by simp
  have m': "makedirs_ok stream_env" by (simp add: stream_env_def example_env_def)
  have b: "capture_screenshots stream_env [10, 100000000000000] ''high_res_screenshots'' 3 Map.empty
      = Inl OverflowError"
    using m' dc' big by (rule unfiltered_raises)
  show ?thesis using dc a p dc' b by simp
qed

section \<open>Properties of the file names\<close>

lemma digit_chars:
  "digit 0 = CHR ''0''" "digit 1 = CHR ''1''" "digit 2 = CHR ''2''" "digit 3 = CHR ''3''"
  "digit 4 = CHR ''4''" "digit 5 = CHR ''5''" "digit 6 = CHR ''6''" "digit 7 = CHR ''7''"
  "digit 8 = CHR ''8''" "digit 9 = CHR ''9''" "digit (Suc 0) = CHR ''1''"
  by (simp_all add: digit_def char_of_def bit_Suc_0_iff)

lemma of_char_digit: "d < 10 \<Longrightarrow> (of_char (digit d) :: nat) = 48 + d"
  by (simp add: digit_def)

lemma is_digit_digit: "d < 10 \<Longrightarrow> is_digit (digit d)"
  by (simp add: is_digit_def of_char_digit)

lemma not_digit_underscore: "\<not> is_digit CHR ''_''"
  by (simp add: is_digit_def)

lemma digit_less: "a < 10 \<Longrightarrow> b < 10 \<Longrightarrow> digit a < digit b \<longleftrightarrow> a < b"
  by (simp add: less_char_def of_char_digit)

lemma digit_eq: "a < 10 \<Longrightarrow> b < 10 \<Longrightarrow> digit a = digit b \<longleftrightarrow> a = b"
  by (metis of_char_digit add_left_cancel)

lemma str_nat_digits: "\<forall>c \<in> set (str_nat n). is_digit c"
proof (induction n rule: str_nat.induct)
  case (1 n)
  show ?case
  proof (cases "n < 10")
    case True
    then show ?thesis by (subst str_nat.simps) (simp add: is_digit_digit)
  next
    case False
    then show ?thesis using 1 by (subst str_nat.simps) (simp add: is_digit_digit)
  qed
qed

lemma digits_val_snoc: "digits_val (s @ [c]) = 10 * digits_val s + (of_char c - 48)"
  by (simp add: digits_val_def)

lemma digits_val_str_nat: "digits_val (str_nat n) = n"
proof (induction n rule: str_nat.induct)
  case (1 n)
  show ?case
  proof (cases "n < 10")
    case True
    then show ?thesis
      by (subst str_nat.simps) (simp add: digits_val_def of_char_digit)
  next
    case False
    then show ?thesis using 1
      by (subst str_nat.simps) (simp add: digits_val_snoc of_char_digit)
  qed
qed

lemma digits_val_zeros: "digits_val (replicate k CHR ''0'' @ s) = digits_val s"
proof -
  have "foldl (\<lambda>acc c. 10 * acc + (of_char c - 48)) (0::nat) (replicate k CHR ''0'') = 0"
    by (induction k) simp_all
  then show ?thesis by (simp add: digits_val_def)
qed

lemma zero_pad_inj: "zero_pad w (str_nat i) = zero_pad w (str_nat j) \<Longrightarrow> i = j"
proof -
  assume "zero_pad w (str_nat i) = zero_pad w (str_nat j)"
  then have "digits_val (zero_pad w (str_nat i)) = digits_val (zero_pad w (str_nat j))"
    by simp
  then show "i = j"
    by (simp add: zero_pad_def digits_val_zeros digits_val_str_nat)
qed

lemma zero_pad_digits: "\<forall>c \<in> set (zero_pad w (str_nat n)). is_digit c"
  using str_nat_digits[of n] by (auto simp: zero_pad_def is_digit_def)

lemma digits_prefix_unique:
  assumes "\<forall>c \<in> set a. is_digit c" "\<forall>c \<in> set b. is_digit c"
    "a @ CHR ''_'' # r = b @ CHR ''_'' # r'"
  shows "a = b"
proof -
  have "takeWhile is_digit (a @ CHR ''_'' # r) = a" "takeWhile is_digit (b @ CHR ''_'' # r') = b"
    using assms(1,2) by (simp_all add: takeWhile_append2 not_digit_underscore)
  with assms(3) show ?thesis by simp
qed

lemma img_name_inj: "img_name i t = img_name j t' \<Longrightarrow> i = j"
proof -
  assume "img_name i t = img_name j t'"
  then have "zero_pad 3 (str_nat i) @ CHR ''_'' # (str_int (py_int t) @ ''s.jpg'')
           = zero_pad 3 (str_nat j) @ CHR ''_'' # (str_int (py_int t') @ ''s.jpg'')"
    by (simp add: img_name_def)
  then have "zero_pad 3 (str_nat i) = zero_pad 3 (str_nat j)"
    using digits_prefix_unique zero_pad_digits by blast
  then show "i = j" by (rule zero_pad_inj)
qed

lemma img_name_not_abs: "\<not> isabs (img_name i t)"
  by (simp add: img_name_def isabs_def)

lemma img_path_prefix:
  "img_path d i t = (if d = [] \<or> last d = CHR ''/'' then d else d @ ''/'') @ img_name i t"
  by (simp add: img_path_def path_join_def img_name_not_abs)

lemma img_path_inj: "img_path d i t = img_path d j t' \<Longrightarrow> i = j"
  by (auto simp: img_path_prefix dest: img_name_inj)

lemma str_nat_small: "n < 10 \<Longrightarrow> str_nat n = [digit n]"
  by (subst str_nat.simps) simp

lemma str_nat_large: "\<not> n < 10 \<Longrightarrow> str_nat n = str_nat (n div 10) @ [digit (n mod 10)]"
  by (subst str_nat.simps) simp

lemma zero_pad_3:
  "zero_pad 3 [c] = [CHR ''0'', CHR ''0'', c]"
  "zero_pad 3 [b, c] = [CHR ''0'', b, c]"
  "3 \<le> length s \<Longrightarrow> zero_pad 3 s = s"
  by (simp_all add: zero_pad_def numeral_2_eq_2)

lemma pad3: "n < 1000 \<Longrightarrow>
  zero_pad 3 (str_nat n) = [digit (n div 100), digit (n div 10 mod 10), digit (n mod 10)]"
proof -
  assume n: "n < 1000"
  consider "n < 10" | "10 \<le> n" "n < 100" | "100 \<le> n" using n by linarith
  then show ?thesis
  proof cases
    case 1
    then have "str_nat n = [digit n]" by (rule str_nat_small)
    with 1 show ?thesis by (simp add: zero_pad_3 digit_chars)
  next
    case 2
    then have "str_nat n = [digit (n div 10), digit (n mod 10)]"
      by (simp add: str_nat_large str_nat_small)
    with 2 show ?thesis by (simp add: zero_pad_3 digit_chars)
  next
    case 3
    have a: "\<not> n < 10" "\<not> n div 10 < 10" "n div 10 div 10 < 10" using 3 n by simp_all
    have b: "n div 10 div 10 = n div 100" by (simp add: div_mult2_eq[symmetric])
    have "str_nat n = [digit (n div 100), digit (n div 10 mod 10), digit (n mod 10)]"
      using a b by (simp add: str_nat_large str_nat_small)
    then show ?thesis by (simp add: zero_pad_3)
  qed
qed

lemma decimal3: "(n::nat) = 100 * (n div 100) + 10 * (n div 10 mod 10) + n mod 10"
proof -
  have "n mod (10 * 10) = 10 * (n div 10 mod 10) + n mod 10" by (rule mod_mult2_eq)
  then have "n mod 100 = 10 * (n div 10 mod 10) + n mod 10" by simp
  moreover have "n = 100 * (n div 100) + n mod 100" by simp
  ultimately show ?thesis by simp
qed

lemma pad3_less:
  assumes "i < j" "j < 1000"
  shows "zero_pad 3 (str_nat i) < zero_pad 3 (str_nat j)"
proof -
  have i: "i < 1000" using assms by simp
  have d: "i div 100 < 10" "j div 100 < 10" "i div 10 mod 10 < 10" "j div 10 mod 10 < 10"
    "i mod 10 < 10" "j mod 10 < 10" using assms i by simp_all
  define a b c a' b' c' where "a = i div 100" and "b = i div 10 mod 10" and "c = i mod 10"
    and "a' = j div 100" and "b' = j div 10 mod 10" and "c' = j mod 10"
  have e: "i = 100 * a + 10 * b + c" "j = 100 * a' + 10 * b' + c'"
    unfolding a_def b_def c_def a'_def b'_def c'_def by (rule decimal3)+
  have bounds: "a < 10" "b < 10" "c < 10" "a' < 10" "b' < 10" "c' < 10"
    unfolding a_def b_def c_def a'_def b'_def c'_def using d by simp_all
  have "a < a' \<or> (a = a' \<and> (b < b' \<or> (b = b' \<and> c < c')))"
    using assms(1) e bounds by linarith
  then have "digit a < digit a' \<or> (digit a = digit a' \<and>
       (digit b < digit b' \<or> (digit b = digit b' \<and> digit c < digit c')))"
    using bounds by (simp add: digit_less digit_eq)
  then show ?thesis
    unfolding pad3[OF i] pad3[OF assms(2)] a_def b_def c_def a'_def b'_def c'_def by simp
qed

lemma less_append_same_length:
  "length xs = length ys \<Longrightarrow> xs < ys \<Longrightarrow> xs @ r < ys @ r'"
  for xs ys :: string
  by (induction xs ys rule: list_induct2) auto

lemma less_prefix: "p @ a < p @ b \<longleftrightarrow> a < b" for p :: string
  by (induction p) simp_all

lemma img_path_less:
  assumes "i < j" "j \<le> 999"
  shows "img_path d i t < img_path d j t'"
proof -
  have j: "j < 1000" using assms(2) by simp
  then have i: "i < 1000" using assms(1) by simp
  have len: "length (zero_pad 3 (str_nat i)) = length (zero_pad 3 (str_nat j))"
    by (simp add: pad3[OF i] pad3[OF j])
  have "zero_pad 3 (str_nat i) @ (''_'' @ str_int (py_int t) @ ''s.jpg'')
      < zero_pad 3 (str_nat j) @ (''_'' @ str_int (py_int t') @ ''s.jpg'')"
    by (rule less_append_same_length[OF len pad3_less[OF assms(1) j]])
  then have "img_name i t < img_name j t'"
    unfolding img_name_def using less_prefix[of "''screenshot_''"] by simp
  then show ?thesis by (simp add: img_path_prefix less_prefix)
qed

lemma str_nat_numeral: "str_nat (numeral k) =
   (if (numeral k :: nat) < 10 then [digit (numeral k)]
    else str_nat (numeral k div 10) @ [digit (numeral k mod 10)])"
  by (rule str_nat.simps)

lemma str_nat_0: "str_nat 0 = ''0''" and str_nat_1: "str_nat (Suc 0) = ''1''"
  by (simp_all add: str_nat_small digit_chars)

lemmas name_eval = img_path_prefix img_name_def zero_pad_3 str_int_def py_int_def
  str_nat_numeral str_nat_0 str_nat_1 digit_chars

section \<open>One pass of the retry loop\<close>

lemma decode_seek_success:
  "fst (decode_seek mul d img t fs) \<longleftrightarrow>
     frame_returned mul d t \<and> nonempty (snd (decode_seek mul d img t fs)) img"
  by (cases d) (simp_all add: decode_seek_def frame_returned_def Let_def)

lemma decode_seek_written:
  "d = DecoderOpen fps frame_at True \<Longrightarrow> frame_at (max 0 (py_int (mul t fps))) \<Longrightarrow>
     decode_seek mul d img t fs =
       (True, fs(img \<mapsto> ImageFile (DecoderShot (max 0 (py_int (mul t fps))) 95)))"
  by (simp add: decode_seek_def Let_def nonempty_def)

text \<open>
  C6, as amended. When the external tool is not found, raises a subprocess error or a
  timeout, or ends without both return code 0 and a non-empty file at the image path,
  the same pass goes on to decode-seek: the frame index is the product of the timestamp
  and the frame rate of the decoder (a product of floats), truncated; the decoder seeks
  to the larger of 0 and that index and reads one frame. The pass succeeds if and only
  if the decoder returned a frame and a non-empty file is at the image path afterwards;
  when the write of the frame succeeds, that file is the frame saved at JPEG quality 95.
\<close>

theorem decode_seek_fallback:
  "(tr = ToolAbsent \<or> tr = ToolSubprocessError \<longrightarrow>
      attempt mul tr d img t fs = decode_seek mul d img t fs)
   \<and> (tr = ToolExit rc w \<and> \<not> (rc = 0 \<and> nonempty (tool_write w img t fs) img) \<longrightarrow>
      attempt mul tr d img t fs = decode_seek mul d img t (tool_write w img t fs))
   \<and> (fst (decode_seek mul d img t fs) \<longleftrightarrow>
        frame_returned mul d t \<and> nonempty (snd (decode_seek mul d img t fs)) img)
   \<and> (d = DecoderOpen fps frame_at True \<and> frame_at (max 0 (py_int (mul t fps))) \<longrightarrow>
        decode_seek mul d img t fs =
          (True, fs(img \<mapsto> ImageFile (DecoderShot (max 0 (py_int (mul t fps))) 95))))"
  using decode_seek_success[of mul d img t fs] decode_seek_written[of d fps frame_at mul t img fs]
  by (auto simp: attempt_def Let_def)

theorem decode_seek_fallback_witness:
  "attempt (*) ToolAbsent (DecoderOpen 30 every_frame True) ''/shots/a.jpg'' 10 Map.empty =
     decode_seek (*) (DecoderOpen 30 every_frame True) ''/shots/a.jpg'' 10 Map.empty
   \<and> attempt (*) (ToolExit 1 Nothing) (DecoderOpen 30 every_frame True) ''/shots/a.jpg'' 10 Map.empty =
     decode_seek (*) (DecoderOpen 30 every_frame True) ''/shots/a.jpg'' 10 Map.empty
   \<and> decode_seek (*) (DecoderOpen 30 every_frame True) ''/shots/a.jpg'' 10 Map.empty =
       (True, [''/shots/a.jpg'' \<mapsto> ImageFile (DecoderShot 300 95)])"
  using decode_seek_fallback[where mul = "(*)" and tr = ToolAbsent
      and d = "DecoderOpen 30 every_frame True"
      and img = "''/shots/a.jpg''" and t = 10 and fs = Map.empty and fps = 30
      and frame_at = every_frame]
    decode_seek_fallback[where mul = "(*)" and tr = "ToolExit 1 Nothing" and rc = 1 and w = Nothing
      and d = "DecoderOpen 30 every_frame True"
      and img = "''/shots/a.jpg''" and t = 10 and fs = Map.empty and fps = 30
      and frame_at = every_frame]
  by (simp add: every_frame_def tool_write_def py_int_def)

text \<open>
  The claim as stated fails: the decoder returns a frame, the frame cannot be written
  and nothing is at the image path, and the pass fails (line 275 asks for the file).
\<close>

theorem decode_seek_iff_counterexample:
  "frame_returned (*) (DecoderOpen 30 every_frame False) 10
   \<and> \<not> fst (attempt (*) ToolAbsent (DecoderOpen 30 every_frame False) ''/shots/a.jpg'' 10 Map.empty)"
  by (simp add: frame_returned_def attempt_def decode_seek_def every_frame_def nonempty_def Let_def)

text \<open>
  An exception of the external tool that is neither a subprocess error nor a timeout
  (an \<^verbatim>\<open>OSError\<close> of \<^verbatim>\<open>Popen\<close>, say) is not caught at line 250: it ends the pass at
  the handler of line 283, and the decoder is not tried in that pass, whatever the
  comment of line 253 says.
\<close>

lemma other_error_no_fallback: "attempt mul ToolOtherError d img t fs = (False, fs)"
  by (simp add: attempt_def)

section \<open>The document\<close>

lemma remove_file_apply:
  "remove_file e q fs p = (if p = q \<and> remove_ok e q then None else fs p)"
  by (simp add: remove_file_def)

lemma fold_remove_file:
  "fold (remove_file e) ps fs p = (if p \<in> set ps \<and> remove_ok e p then None else fs p)"
  by (induction ps arbitrary: fs) (auto simp: remove_file_apply)

lemma those_map_Some: "those (map Some ys) = Some ys"
  by (induction ys) simp_all

lemma those_Some: "those xs = Some ys \<longleftrightarrow> xs = map Some ys"
proof (induction xs arbitrary: ys)
  case Nil
  then show ?case by auto
next
  case (Cons x xs)
  show ?case
  proof (cases x)
    case None
    then show ?thesis by (cases ys) auto
  next
    case (Some a)
    have "those (x # xs) = Some ys \<longleftrightarrow> (\<exists>zs. those xs = Some zs \<and> ys = a # zs)"
      using Some by (cases "those xs") auto
    also have "\<dots> \<longleftrightarrow> (\<exists>zs. xs = map Some zs \<and> ys = a # zs)"
      by (simp add: Cons.IH)
    also have "\<dots> \<longleftrightarrow> x # xs = map Some ys"
      using Some by (cases ys) auto
    finally show ?thesis .
  qed
qed

lemma those_None: "those xs = None \<longleftrightarrow> None \<in> set xs"
  by (induction xs) (auto split: option.splits)

lemma load_image_None: "load_image fs p = None \<longleftrightarrow> \<not> (\<exists>im. fs p = Some (ImageFile im))"
  by (auto simp: load_image_def split: option.splits content.splits)

lemma all_load:
  "(\<forall>p \<in> set ps. \<exists>im. fs p = Some (ImageFile im)) \<longleftrightarrow> those (map (load_image fs) ps) \<noteq> None"
proof -
  have "those (map (load_image fs) ps) \<noteq> None \<longleftrightarrow> (\<forall>p \<in> set ps. load_image fs p \<noteq> None)"
    by (induction ps) (auto split: option.splits)
  then show ?thesis by (simp add: load_image_None)
qed

lemma create_pdf_success:
  assumes "fst (create_pdf e ps title out fs)"
  shows "pdf_dir_ok e \<and> pdf_output e = Written \<and>
         (\<exists>imgs. map (load_image fs) ps = map Some imgs \<and>
            snd (create_pdf e ps title out fs) =
              fold (remove_file e) ps
                (fs(output_path e out \<mapsto>
                   Document (title_section e title (length ps) @ map ImagePage imgs))))"
  using assms
  by (auto simp: create_pdf_def Let_def those_Some those_map_Some
      split: option.splits write_outcome.splits if_splits)

lemma create_pdf_fst:
  "fst (create_pdf e ps title out fs) \<longleftrightarrow>
     pdf_dir_ok e \<and> those (map (load_image fs) ps) \<noteq> None \<and> pdf_output e = Written"
  by (auto simp: create_pdf_def Let_def split: option.splits write_outcome.splits)

lemma create_pdf_early:
  "\<not> pdf_dir_ok e \<or> those (map (load_image fs) ps) = None \<Longrightarrow>
     create_pdf e ps title out fs = (False, fs)"
  by (auto simp: create_pdf_def Let_def)

lemma create_pdf_failure:
  assumes "\<not> fst (create_pdf e ps title out fs)"
  shows "snd (create_pdf e ps title out fs) = fs \<or>
         (\<exists>c. snd (create_pdf e ps title out fs) = fs(output_path e out \<mapsto> c))"
  using assms
  by (auto simp: create_pdf_def Let_def split: option.splits write_outcome.splits if_splits)

lemma create_pdf_remove_ok:
  "fst (create_pdf (e\<lparr>remove_ok := r\<rparr>) ps title out fs) = fst (create_pdf e ps title out fs)"
  by (simp add: create_pdf_fst)

text \<open>
  C4. \<^const>\<open>create_pdf\<close> returns success exactly when the output directory is there,
  every image loads and the document is written. On success the document (the title
  section, then the images in the order of the paths) is at the output path, and every
  image path that \<^verbatim>\<open>os.remove\<close> may delete is gone; whether deletions fail has no
  effect on the result. When the output directory cannot be made or an image does not
  load, it returns failure and the files are as they were. Whenever it returns failure
  (a failing write included), every file that was there before is still there, and no
  file but the one at the output path has changed: no image was deleted.
\<close>

theorem create_pdf_cleanup:
  "(fst (create_pdf e ps title out fs) \<longleftrightarrow>
      pdf_dir_ok e \<and> (\<forall>p \<in> set ps. \<exists>im. fs p = Some (ImageFile im)) \<and> pdf_output e = Written)
   \<and> (fst (create_pdf e ps title out fs) \<longrightarrow>
      (\<exists>imgs. map fs ps = map (\<lambda>im. Some (ImageFile im)) imgs
         \<and> (\<forall>p. snd (create_pdf e ps title out fs) p =
                  (if p \<in> set ps \<and> remove_ok e p then None
                   else if p = output_path e out
                        then Some (Document (title_section e title (length ps) @ map ImagePage imgs))
                        else fs p))))
   \<and> (\<not> pdf_dir_ok e \<or> \<not> (\<forall>p \<in> set ps. \<exists>im. fs p = Some (ImageFile im)) \<longrightarrow>
      create_pdf e ps title out fs = (False, fs))
   \<and> (\<not> fst (create_pdf e ps title out fs) \<longrightarrow>
      (\<forall>p. fs p \<noteq> None \<longrightarrow> snd (create_pdf e ps title out fs) p \<noteq> None)
      \<and> (\<forall>p. p \<noteq> output_path e out \<longrightarrow> snd (create_pdf e ps title out fs) p = fs p))
   \<and> fst (create_pdf (e\<lparr>remove_ok := r\<rparr>) ps title out fs) = fst (create_pdf e ps title out fs)"
proof -
  have iff: "fst (create_pdf e ps title out fs) \<longleftrightarrow>
      pdf_dir_ok e \<and> (\<forall>p \<in> set ps. \<exists>im. fs p = Some (ImageFile im)) \<and> pdf_output e = Written"
    by (simp only: create_pdf_fst all_load)
  have a: "\<exists>imgs. map fs ps = map (\<lambda>im. Some (ImageFile im)) imgs
         \<and> (\<forall>p. snd (create_pdf e ps title out fs) p =
                  (if p \<in> set ps \<and> remove_ok e p then None
                   else if p = output_path e out
                        then Some (Document (title_section e title (length ps) @ map ImagePage imgs))
                        else fs p))"
    if "fst (create_pdf e ps title out fs)"
  proof -
    from create_pdf_success[OF that] obtain imgs where
      l: "map (load_image fs) ps = map Some imgs" and
      s: "snd (create_pdf e ps title out fs) =
              fold (remove_file e) ps
                (fs(output_path e out \<mapsto>
                   Document (title_section e title (length ps) @ map ImagePage imgs)))"
      by blast
    have "map fs ps = map (\<lambda>im. Some (ImageFile im)) imgs"
      using l
    proof (induction ps arbitrary: imgs)
      case Nil
      then show ?case by simp
    next
      case (Cons p ps)
      then obtain im ims where i: "imgs = im # ims" by (cases imgs) auto
      have "load_image fs p = Some im" "map (load_image fs) ps = map Some ims"
        using Cons.prems i by simp_all
      moreover have "fs p = Some (ImageFile im)" using \<open>load_image fs p = Some im\<close>
        by (auto simp: load_image_def split: option.splits content.splits)
      ultimately show ?case using Cons.IH[of ims] i by simp
    qed
    then show ?thesis using s by (intro exI[of _ imgs]) (simp add: fold_remove_file)
  qed
  have early: "create_pdf e ps title out fs = (False, fs)"
    if "\<not> pdf_dir_ok e \<or> \<not> (\<forall>p \<in> set ps. \<exists>im. fs p = Some (ImageFile im))"
    using that create_pdf_early[of e fs ps title out] by (simp only: all_load) blast
  have b: "(\<forall>p. fs p \<noteq> None \<longrightarrow> snd (create_pdf e ps title out fs) p \<noteq> None)
      \<and> (\<forall>p. p \<noteq> output_path e out \<longrightarrow> snd (create_pdf e ps title out fs) p = fs p)"
    if "\<not> fst (create_pdf e ps title out fs)"
    using create_pdf_failure[OF that] by auto
  show ?thesis
    apply (intro conjI impI)
        apply (rule iff)
       apply (erule a)
      apply (erule early)
     apply (erule b[THEN conjunct1])
    apply (erule b[THEN conjunct2])
    apply (rule create_pdf_remove_ok)
    done
qed

theorem create_pdf_cleanup_witness:
  "fst (create_pdf example_env [''/s/a.jpg''] [] ''out.pdf'' [''/s/a.jpg'' \<mapsto> ImageFile (ToolShot 1)])
   \<and> snd (create_pdf example_env [''/s/a.jpg''] [] ''out.pdf''
          [''/s/a.jpg'' \<mapsto> ImageFile (ToolShot 1)]) ''/s/a.jpg'' = None
   \<and> (\<exists>imgs. snd (create_pdf example_env [''/s/a.jpg''] [] ''out.pdf''
          [''/s/a.jpg'' \<mapsto> ImageFile (ToolShot 1)]) ''/work/PDF/out.pdf'' =
          Some (Document (title_section example_env [] 1 @ map ImagePage imgs)))
   \<and> create_pdf (example_env\<lparr>pdf_dir_ok := False\<rparr>) [''/s/a.jpg''] [] ''out.pdf''
        [''/s/a.jpg'' \<mapsto> ImageFile (ToolShot 1)] = (False, [''/s/a.jpg'' \<mapsto> ImageFile (ToolShot 1)])
   \<and> create_pdf example_env [''/s/a.jpg''] [] ''out.pdf'' [''/s/a.jpg'' \<mapsto> Junk] =
        (False, [''/s/a.jpg'' \<mapsto> Junk])
   \<and> \<not> fst (create_pdf (example_env\<lparr>pdf_output := WriteFailed None\<rparr>) [''/s/a.jpg''] []
            ''out.pdf'' [''/s/a.jpg'' \<mapsto> ImageFile (ToolShot 1)])
   \<and> snd (create_pdf (example_env\<lparr>pdf_output := WriteFailed None\<rparr>) [''/s/a.jpg''] []
          ''out.pdf'' [''/s/a.jpg'' \<mapsto> ImageFile (ToolShot 1)]) ''/s/a.jpg'' \<noteq> None"
proof -
  let ?fs = "[''/s/a.jpg'' \<mapsto> ImageFile (ToolShot 1)]"
  let ?bad = "example_env\<lparr>pdf_output := WriteFailed None\<rparr>"
  have env: "pdf_dir_ok example_env" "pdf_output example_env = Written"
    "remove_ok example_env ''/s/a.jpg''" "cwd example_env = ''/work''"
    by (simp_all add: example_env_def)
  have out: "output_path example_env ''out.pdf'' = ''/work/PDF/out.pdf''"
    by (simp add: output_path_def dirname_def path_join_def isabs_def env)
  note t1 = create_pdf_cleanup[where e = example_env and ps = "[''/s/a.jpg'']" and title = "[]"
        and out = "''out.pdf''" and fs = ?fs]
  note t2 = create_pdf_cleanup[where e = "example_env\<lparr>pdf_dir_ok := False\<rparr>"
        and ps = "[''/s/a.jpg'']" and title = "[]" and out = "''out.pdf''" and fs = ?fs]
  note t3 = create_pdf_cleanup[where e = example_env and ps = "[''/s/a.jpg'']" and title = "[]"
        and out = "''out.pdf''" and fs = "[''/s/a.jpg'' \<mapsto> Junk]"]
  note t4 = create_pdf_cleanup[where e = ?bad and ps = "[''/s/a.jpg'']" and title = "[]"
        and out = "''out.pdf''" and fs = ?fs]
  have ok: "fst (create_pdf example_env [''/s/a.jpg''] [] ''out.pdf'' ?fs)"
    using t1[THEN conjunct1] env by simp
  obtain imgs where i: "\<forall>p. snd (create_pdf example_env [''/s/a.jpg''] [] ''out.pdf'' ?fs) p =
      (if p \<in> set [''/s/a.jpg''] \<and> remove_ok example_env p then None
       else if p = output_path example_env ''out.pdf''
            then Some (Document (title_section example_env [] (length [''/s/a.jpg''])
                        @ map ImagePage imgs))
            else ?fs p)"
    using t1[THEN conjunct2, THEN conjunct1] ok by blast
  have gone: "snd (create_pdf example_env [''/s/a.jpg''] [] ''out.pdf'' ?fs) ''/s/a.jpg'' = None"
    using i env by simp
  have doc: "snd (create_pdf example_env [''/s/a.jpg''] [] ''out.pdf'' ?fs) ''/work/PDF/out.pdf'' =
      Some (Document (title_section example_env [] 1 @ map ImagePage imgs))"
    using i out by simp
  have nodir: "create_pdf (example_env\<lparr>pdf_dir_ok := False\<rparr>) [''/s/a.jpg''] [] ''out.pdf'' ?fs
      = (False, ?fs)"
    using t2[THEN conjunct2, THEN conjunct2, THEN conjunct1] by simp
  have noimg: "create_pdf example_env [''/s/a.jpg''] [] ''out.pdf'' [''/s/a.jpg'' \<mapsto> Junk] =
        (False, [''/s/a.jpg'' \<mapsto> Junk])"
    using t3[THEN conjunct2, THEN conjunct2, THEN conjunct1] by simp
  have bad: "\<not> fst (create_pdf ?bad [''/s/a.jpg''] [] ''out.pdf'' ?fs)"
    using t4[THEN conjunct1] by simp
  have kept: "snd (create_pdf ?bad [''/s/a.jpg''] [] ''out.pdf'' ?fs) ''/s/a.jpg'' \<noteq> None"
    using t4[THEN conjunct2, THEN conjunct2, THEN conjunct2, THEN conjunct1] bad by simp
  show ?thesis
    using ok gone doc nodir noimg bad kept by blast
qed

section \<open>The whole run of capture_screenshots\<close>

lemma sorted_wrt_subseq: "subseq xs ys \<Longrightarrow> sorted_wrt P ys \<Longrightarrow> sorted_wrt P xs"
proof (induction rule: list_emb.induct)
  case (list_emb_Nil ys)
  then show ?case by simp
next
  case (list_emb_Cons xs ys y)
  then show ?case by simp
next
  case (list_emb_Cons2 x y xs ys)
  then have "set xs \<subseteq> set ys" by (auto dest: set_mono_sublist list_emb_set)
  with list_emb_Cons2 show ?case by auto
qed

lemma subseq_set: "subseq xs ys \<Longrightarrow> set xs \<subseteq> set ys"
  by (induction rule: list_emb.induct) auto

lemma distinct_map_sorted_wrt:
  "sorted_wrt (\<lambda>x y. f x \<noteq> f y) xs \<Longrightarrow> distinct (map f xs)"
  by (induction xs) auto

lemma capture_one_captured:
  assumes "capture_one e d m i t s = Inr s'"
  shows "\<exists>cs. captured (log s') = captured (log s) @ cs \<and> subseq cs [(i, t)]
        \<and> (all_fail e (img_path d i t) i t 0 m (files s) \<longrightarrow> cs = [])"
  using capture_one_log[OF assms]
  by (auto simp: captured_append captured_replicate)

lemma capture_loop_captured:
  "capture_loop e d m i ts s = Inr s' \<Longrightarrow>
     \<exists>cs. captured (log s') = captured (log s) @ cs \<and> subseq cs (zip [i..<i + length ts] ts)"
proof (induction ts arbitrary: i s)
  case Nil
  then show ?case by simp
next
  case (Cons t ts)
  from Cons.prems obtain s1 where s1: "capture_one e d m i t s = Inr s1"
    "capture_loop e d m (Suc i) ts s1 = Inr s'" unfolding capture_loop_Cons by blast
  obtain c1 where c1: "captured (log s1) = captured (log s) @ c1" "subseq c1 [(i, t)]"
    using capture_one_captured[OF s1(1)] by blast
  obtain c2 where c2: "captured (log s') = captured (log s1) @ c2"
    "subseq c2 (zip [Suc i..<Suc i + length ts] ts)"
    using Cons.IH[OF s1(2)] by blast
  have u: "[i..<i + length (t # ts)] = i # [Suc i..<Suc i + length ts]"
    by (simp add: upt_rec)
  have "subseq (c1 @ c2) ([(i, t)] @ zip [Suc i..<Suc i + length ts] ts)"
    using c1(2) c2(2) by (rule list_emb_append_mono)
  then show ?case
    using c1 c2 u by (intro exI[of _ "c1 @ c2"]) simp
qed

lemma capture_one_log_ext: "capture_one e d m i t s = Inr s' \<Longrightarrow> \<exists>l. log s' = log s @ l"
  using capture_one_log[of e d m i t s s'] by auto

lemma capture_loop_log_ext: "capture_loop e d m i ts s = Inr s' \<Longrightarrow> \<exists>l. log s' = log s @ l"
proof (induction ts arbitrary: i s)
  case Nil
  then show ?case by simp
next
  case (Cons t ts)
  from Cons.prems obtain s1 where s1: "capture_one e d m i t s = Inr s1"
    "capture_loop e d m (Suc i) ts s1 = Inr s'" unfolding capture_loop_Cons by blast
  obtain l1 where "log s1 = log s @ l1"
    using capture_one_log_ext[OF s1(1)] by blast
  moreover obtain l2 where "log s' = log s1 @ l2"
    using Cons.IH[OF s1(2)] by blast
  ultimately show ?case by simp
qed

lemma zip_index_bounds: "(j, u) \<in> set (zip [i..<i + length ts] ts) \<Longrightarrow> i \<le> j \<and> j < i + length ts"
  by (auto dest: set_zip_leftD)

lemma zip_index_sorted: "sorted_wrt (\<lambda>x y. fst x < fst y) (zip [i..<i + length ts] ts)"
proof -
  have "sorted_wrt (<) (map fst (zip [i..<i + length ts] ts))" by simp
  then show ?thesis by (simp only: sorted_wrt_map)
qed

lemma finish_facts:
  "images (finish n s) = images s" "files (finish n s) = files s"
  "captured (log (finish n s)) = captured (log s)"
  "attempts i (log (finish n s)) = attempts i (log s)"
  "set (log s) \<subseteq> set (log (finish n s))"
  by (auto simp: finish_def captured_append attempts_append)

lemma loop_input_subseq: "subseq (loop_input e ts) ts"
  by (cases "duration_check e ts") (simp_all add: loop_input_def valid_timestamps_def)

lemma run_cases:
  assumes "capture_screenshots e ts od m fs = Inr s"
  shows "(\<exists>s1. capture_loop e (resolve_dir e od) m 1 (loop_input e ts) (loop_start e ts fs) = Inr s1
            \<and> s = finish (length (loop_input e ts)) s1)
         \<or> (images s = [] \<and> files s = fs \<and> captured (log s) = [])"
proof -
  let ?L = "loop_input e ts" and ?d = "resolve_dir e od"
  have mk: "makedirs_ok e"
    using assms by (auto simp: capture_screenshots_def Let_def split: if_splits)
  show ?thesis
  proof (cases "duration_check e ts \<noteq> Unreadable \<and> (duration_check e ts = ProbeException \<or> ?L \<noteq> [])")
    case True
    then have "(case capture_loop e ?d m 1 ?L (loop_start e ts fs) of
              Inl err \<Rightarrow> Inl err
            | Inr s \<Rightarrow> Inr (finish (length ?L) s)) = Inr s"
      using capture_screenshots_loop[of e ts od m fs] mk assms by simp
    then show ?thesis by (auto split: sum.splits)
  next
    case False
    then have "s = \<lparr>images = [], files = fs, log = [CannotOpen]\<rparr> \<or>
        (\<exists>w. s = \<lparr>images = [], files = fs, log = w @ [NoValidTimestamps]\<rparr> \<and>
             (w = [] \<or> (\<exists>n. w = [OutsideDuration n])))"
      using assms mk
      by (cases "duration_check e ts")
        (auto simp: capture_screenshots_def Let_def loop_input_def split: if_splits)
    then show ?thesis by (auto simp: captured_append)
  qed
qed

lemma run_shape:
  assumes "capture_screenshots e ts od m fs = Inr s"
  shows "images s = map (\<lambda>(i, t). img_path (resolve_dir e od) i t) (captured (log s))
       \<and> subseq (captured (log s)) (zip [1..<1 + length (loop_input e ts)] (loop_input e ts))"
proof -
  let ?L = "loop_input e ts" and ?d = "resolve_dir e od"
  from run_cases[OF assms] show ?thesis
  proof
    assume "\<exists>s1. capture_loop e ?d m 1 ?L (loop_start e ts fs) = Inr s1 \<and> s = finish (length ?L) s1"
    then obtain s1 where s1: "capture_loop e ?d m 1 ?L (loop_start e ts fs) = Inr s1"
      and s: "s = finish (length ?L) s1" by blast
    have "consistent ?d (loop_start e ts fs)" by (simp add: consistent_def loop_start_facts)
    with s1 have c: "consistent ?d s1" by (rule capture_loop_consistent)
    obtain cs where cs: "captured (log s1) = captured (log (loop_start e ts fs)) @ cs"
      "subseq cs (zip [1..<1 + length ?L] ?L)"
      using capture_loop_captured[OF s1] by blast
    show ?thesis
      using c cs unfolding s by (simp add: consistent_def finish_facts loop_start_facts)
  next
    assume "images s = [] \<and> files s = fs \<and> captured (log s) = []"
    then show ?thesis by simp
  qed
qed

text \<open>
  C7, as amended. Within one call of \<^const>\<open>capture_screenshots\<close> the file name holds
  the position of the timestamp in the list the loop runs over (from 1, padded with zeros
  to three digits at least) and the timestamp truncated to an int. Two different
  positions never give the same path. When the later position is at most 999, the path of
  the earlier position is below the path of the later one in lexical order. So the image
  list of a call has no path twice; for a request of at most 999 timestamps it is strictly
  ascending in lexical order; and it follows the surviving timestamps, which ascend when
  the request ascends.
\<close>

theorem image_names:
  "(i \<noteq> j \<longrightarrow> img_path d i t \<noteq> img_path d j t')
   \<and> (i < j \<and> j \<le> 999 \<longrightarrow> img_path d i t < img_path d j t')
   \<and> (capture_screenshots e ts od m fs = Inr s \<longrightarrow>
        images s = map (\<lambda>(i, t). img_path (resolve_dir e od) i t) (captured (log s))
        \<and> distinct (images s)
        \<and> (length ts \<le> 999 \<longrightarrow> sorted_wrt (<) (images s))
        \<and> (sorted ts \<longrightarrow> sorted (map snd (captured (log s)))))"
proof -
  have run: "images s = map (\<lambda>(i, t). img_path (resolve_dir e od) i t) (captured (log s))
        \<and> distinct (images s)
        \<and> (length ts \<le> 999 \<longrightarrow> sorted_wrt (<) (images s))
        \<and> (sorted ts \<longrightarrow> sorted (map snd (captured (log s))))"
    if r: "capture_screenshots e ts od m fs = Inr s"
  proof -
    let ?L = "loop_input e ts" and ?d = "resolve_dir e od"
    let ?f = "\<lambda>(i, t). img_path ?d i t"
    let ?c = "captured (log s)"
    from run_shape[OF r] have im: "images s = map ?f ?c"
      and sub: "subseq ?c (zip [1..<1 + length ?L] ?L)" by simp_all
    have idx: "sorted_wrt (\<lambda>x y. fst x < fst y) ?c"
      using sub zip_index_sorted by (rule sorted_wrt_subseq)
    have bound: "fst x \<le> length ?L" if "x \<in> set ?c" for x
    proof -
      have "x \<in> set (zip [1..<1 + length ?L] ?L)"
        using subseq_set[OF sub] that by (rule subsetD)
      then have "(fst x, snd x) \<in> set (zip [1..<1 + length ?L] ?L)"
        by (simp only: prod.collapse)
      then have "fst x < 1 + length ?L" by (rule zip_index_bounds[THEN conjunct2])
      then show ?thesis by simp
    qed
    have len: "length ?L \<le> length ts"
      using loop_input_subseq[of e ts] by (rule list_emb_length)
    have "sorted_wrt (\<lambda>x y. ?f x \<noteq> ?f y) ?c"
      using idx
    proof (rule sorted_wrt_mono_rel[rotated])
      fix x y :: "nat \<times> real" assume "fst x < fst y"
      then have "fst x \<noteq> fst y" by simp
      then have "img_path ?d (fst x) (snd x) \<noteq> img_path ?d (fst y) (snd y)"
        using img_path_inj by blast
      then show "?f x \<noteq> ?f y" by (simp add: case_prod_beta)
    qed
    then have dist: "distinct (images s)" unfolding im by (rule distinct_map_sorted_wrt)
    have lex: "sorted_wrt (<) (images s)" if "length ts \<le> 999"
    proof -
      have "sorted_wrt (\<lambda>x y. ?f x < ?f y) ?c"
        using idx
      proof (rule sorted_wrt_mono_rel[rotated])
        fix x y assume xy: "x \<in> set ?c" "y \<in> set ?c" "fst x < fst y"
        have "fst y \<le> 999" using bound[OF xy(2)] len that by simp
        then have "img_path ?d (fst x) (snd x) < img_path ?d (fst y) (snd y)"
          using xy(3) by (rule img_path_less[rotated])
        then show "?f x < ?f y" by (simp add: case_prod_beta)
      qed
      then show ?thesis unfolding im by (simp only: sorted_wrt_map)
    qed
    have asc: "sorted (map snd ?c)" if "sorted ts"
    proof -
      have "subseq (map snd ?c) (map snd (zip [1..<1 + length ?L] ?L))"
        using sub by (rule subseq_map)
      then have "subseq (map snd ?c) ?L" by (simp add: map_snd_zip del: upt_Suc)
      then have "subseq (map snd ?c) ts" using loop_input_subseq[of e ts]
        by (rule subseq_order.trans)
      then show ?thesis using that by (rule sorted_wrt_subseq)
    qed
    show ?thesis
      apply (intro conjI impI)
         apply (rule im)
        apply (rule dist)
       apply (erule lex)
      apply (erule asc)
      done
  qed
  have a: "i \<noteq> j \<longrightarrow> img_path d i t \<noteq> img_path d j t'"
    using img_path_inj[of d i t j t'] by blast
  have b: "i < j \<and> j \<le> 999 \<longrightarrow> img_path d i t < img_path d j t'"
    using img_path_less[of i j d t t'] by blast
  show ?thesis
    apply (intro conjI)
      apply (rule a)
     apply (rule b)
    apply (rule impI)
    apply (erule run)
    done
qed

lemma example_dir: "resolve_dir example_env ''high_res_screenshots'' = ''/work/high_res_screenshots''"
  by (simp add: resolve_dir_def isabs_def path_join_def example_env_def)

lemma example_probe: "probe example_env [10, 60, 130] = Duration 120"
  by (simp add: probe_def example_env_def py_int_def)

lemma example_check: "duration_check example_env [10, 60, 130] = Duration 120"
  by (simp add: duration_check_def example_probe timedelta_ok_def py_int_def)

lemma example_one:
  "timedelta_ok (py_int t) \<Longrightarrow>
   capture_one example_env d 3 i t s =
     Inr (s\<lparr>images := images s @ [img_path d i t],
            files := (files s)(img_path d i t \<mapsto> ImageFile (ToolShot t)),
            log := log s @ [Attempt i t, Captured i t]\<rparr>)"
  by (simp add: capture_one_def numeral_3_eq_3 Let_def attempt_def tool_write_def nonempty_def
      example_env_def)

lemma example_run:
  "capture_screenshots example_env [10, 60, 130] ''high_res_screenshots'' 3 Map.empty =
     Inr \<lparr>images = [''/work/high_res_screenshots/screenshot_001_10s.jpg'',
                   ''/work/high_res_screenshots/screenshot_002_60s.jpg''],
          files = [''/work/high_res_screenshots/screenshot_001_10s.jpg'' \<mapsto> ImageFile (ToolShot 10),
                   ''/work/high_res_screenshots/screenshot_002_60s.jpg'' \<mapsto> ImageFile (ToolShot 60)],
          log = [OutsideDuration 1, Attempt 1 10, Captured 1 10, Attempt 2 60, Captured 2 60,
                 Summary 2 2]\<rparr>"
proof -
  have v: "valid_timestamps 120 [10, 60, 130] = [10, 60]" by (simp add: valid_timestamps_def)
  have m: "makedirs_ok example_env" by (simp add: example_env_def)
  have ok: "timedelta_ok (py_int 10)" "timedelta_ok (py_int 60)"
    by (simp_all add: timedelta_ok_def py_int_def)
  have n1: "img_path ''/work/high_res_screenshots'' (Suc 0) 10 =
      ''/work/high_res_screenshots/screenshot_001_10s.jpg''"
    by (simp add: name_eval)
  have n2: "img_path ''/work/high_res_screenshots'' 2 60 =
      ''/work/high_res_screenshots/screenshot_002_60s.jpg''"
    by (simp add: name_eval)
  have n2': "img_path ''/work/high_res_screenshots'' (Suc (Suc 0)) 60 =
      ''/work/high_res_screenshots/screenshot_002_60s.jpg''"
    using n2 by (simp add: numeral_2_eq_2)
  show ?thesis
    by (simp add: capture_screenshots_def example_check example_dir v m Let_def
        example_one[OF ok(1)] example_one[OF ok(2)] finish_def n1 n2')
qed

theorem image_names_witness:
  "(1::nat) \<noteq> 2 \<and> img_path ''/s'' 1 10 \<noteq> img_path ''/s'' 2 60
   \<and> (1::nat) < 2 \<and> (2::nat) \<le> 999 \<and> img_path ''/s'' 1 10 < img_path ''/s'' 2 60
   \<and> length [10, 60, 130 :: real] \<le> 999 \<and> sorted [10, 60, 130 :: real]
   \<and> (\<exists>s. capture_screenshots example_env [10, 60, 130] ''high_res_screenshots'' 3 Map.empty = Inr s
          \<and> distinct (images s) \<and> sorted_wrt (<) (images s)
          \<and> sorted (map snd (captured (log s))))"
  using image_names[where i = 1 and j = 2 and d = "''/s''" and t = 10 and t' = 60
      and e = example_env and ts = "[10, 60, 130]" and od = "''high_res_screenshots''" and m = 3
      and fs = Map.empty]
  by (simp add: example_run)

text \<open>
  The claim as stated fails from the thousandth timestamp on: the index takes four
  digits, and the name of position 1000 (timestamp 999) sorts before the name of
  position 999 (timestamp 998).
\<close>

theorem image_names_counterexample:
  "(998::real) < 999
   \<and> img_path ''/work/high_res_screenshots'' 1000 999 < img_path ''/work/high_res_screenshots'' 999 998"
  by (simp add: name_eval)

text \<open>
  The graphical front end (lines 1082-1089) calls \<^const>\<open>capture_screenshots\<close> once per
  timestamp with a list of one element, so every file gets position 1 there: two
  timestamps within the same second then share one file name.
\<close>

lemma single_call_names_collide: "img_path d 1 10.2 = img_path d 1 10.7"
  by (simp add: img_path_def img_name_def py_int_def)

section \<open>Retry exhaustion\<close>

lemma capture_one_all_fail:
  assumes "capture_one e d m i t s = Inr s'" "all_fail e (img_path d i t) i t 0 m (files s)"
  shows "log s' = log s @ replicate m (Attempt i t) @ [Failed i t]"
    and "images s' = images s"
  using capture_one_log[OF assms(1)] assms(2) by auto

text \<open>
  Let the loop of \<^const>\<open>capture_screenshots\<close> run over \<open>xs @ t # ys\<close>, all within the
  range of \<^verbatim>\<open>timedelta\<close>, and let every one of the \<open>m\<close> passes on \<open>t\<close> fail, from the
  files as they are when \<open>t\<close> is reached. Then the call returns a result; the log holds
  exactly \<open>m\<close> passes for the position of \<open>t\<close>, and its failure; \<open>t\<close> is not among the
  captured timestamps and its path is not in the image list; and the loop has gone
  through every timestamp of the list, those after \<open>t\<close> included.
\<close>

lemma retry_exhaustion_in_range:
  assumes "makedirs_ok e" and "duration_check e ts \<noteq> Unreadable"
    and "loop_input e ts = xs @ t # ys"
    and "\<forall>u \<in> set (loop_input e ts). timedelta_ok (py_int u)"
    and "capture_loop e (resolve_dir e od) m 1 xs (loop_start e ts fs) = Inr sb"
    and "all_fail e (img_path (resolve_dir e od) (Suc (length xs)) t) (Suc (length xs)) t 0 m
           (files sb)"
  shows "\<exists>s. capture_screenshots e ts od m fs = Inr s
           \<and> attempts (Suc (length xs)) (log s) = m
           \<and> Failed (Suc (length xs)) t \<in> set (log s)
           \<and> (Suc (length xs), t) \<notin> set (captured (log s))
           \<and> img_path (resolve_dir e od) (Suc (length xs)) t \<notin> set (images s)
           \<and> map snd (processed (log s)) = xs @ t # ys"
proof -
  let ?d = "resolve_dir e od" and ?i = "Suc (length xs)" and ?L = "loop_input e ts"
  let ?start = "loop_start e ts fs"
  have sb: "capture_loop e ?d m (Suc 0) xs ?start = Inr sb" using assms(5) by simp
  have okt: "timedelta_ok (py_int t)" and okys: "\<forall>u \<in> set ys. timedelta_ok (py_int u)"
    using assms(3,4) by simp_all
  obtain sf where sf: "capture_one e ?d m ?i t sb = Inr sf"
    using capture_one_returns[OF okt] by blast
  obtain sr where sr: "capture_loop e ?d m (Suc ?i) ys sf = Inr sr"
    using capture_loop_returns[OF okys] by blast
  let ?res = "finish (length ?L) sr"
  have loop: "capture_loop e ?d m 1 ?L ?start = Inr sr"
    using assms(3) sb sf sr by (simp add: capture_loop_append)
  have run: "capture_screenshots e ts od m fs = Inr ?res"
    using capture_screenshots_loop[of e ts od m fs] assms(1,2,3) loop by simp
  have l2: "log sf = log sb @ replicate m (Attempt ?i t) @ [Failed ?i t]"
    and i2: "images sf = images sb"
    using capture_one_all_fail[OF sf assms(6)] by simp_all
  have a1: "attempts ?i (log sb) = 0"
    using capture_loop_attempts[OF sb, of ?i] by (simp add: loop_start_facts)
  have a2: "attempts ?i (log sf) = m"
    using a1 by (simp add: l2 attempts_append attempts_replicate)
  have a3: "attempts ?i (log sr) = m"
    using capture_loop_attempts[OF sr, of ?i] a2 by simp
  have att: "attempts ?i (log ?res) = m" using a3 by (simp add: finish_facts)
  obtain l where l: "log sr = log sf @ l" using capture_loop_log_ext[OF sr] by blast
  have "Failed ?i t \<in> set (log sr)" by (simp add: l l2)
  then have failed: "Failed ?i t \<in> set (log ?res)" using finish_facts(5) by blast
  obtain c1 where c1: "captured (log sb) = captured (log ?start) @ c1"
    "subseq c1 (zip [Suc 0..<Suc 0 + length xs] xs)"
    using capture_loop_captured[OF sb] by blast
  obtain c3 where c3: "captured (log sr) = captured (log sf) @ c3"
    "subseq c3 (zip [Suc ?i..<Suc ?i + length ys] ys)"
    using capture_loop_captured[OF sr] by blast
  have cap: "captured (log ?res) = c1 @ c3"
    by (simp add: finish_facts c3 l2 captured_append captured_replicate c1 loop_start_facts)
  have n1: "j < ?i" if "(j, u) \<in> set c1" for j u
  proof -
    have "(j, u) \<in> set (zip [Suc 0..<Suc 0 + length xs] xs)"
      using subseq_set[OF c1(2)] that by (rule subsetD)
    then show ?thesis using zip_index_bounds[of j u "Suc 0" xs] by simp
  qed
  have n3: "?i < j" if "(j, u) \<in> set c3" for j u
  proof -
    have "(j, u) \<in> set (zip [Suc ?i..<Suc ?i + length ys] ys)"
      using subseq_set[OF c3(2)] that by (rule subsetD)
    then show ?thesis using zip_index_bounds[of j u "Suc ?i" ys] by simp
  qed
  have idx: "j \<noteq> ?i" if "(j, u) \<in> set (captured (log ?res))" for j u
    using that n1[of j u] n3[of j u] unfolding cap by auto
  have notcap: "(?i, t) \<notin> set (captured (log ?res))" using idx by blast
  have im: "images ?res = map (\<lambda>(i, t). img_path ?d i t) (captured (log ?res))"
    using run_shape[OF run] by simp
  have notimg: "img_path ?d ?i t \<notin> set (images ?res)"
  proof
    assume "img_path ?d ?i t \<in> set (images ?res)"
    then obtain j u where ju: "(j, u) \<in> set (captured (log ?res))" "img_path ?d ?i t = img_path ?d j u"
      unfolding im by auto
    then have "?i = j" using img_path_inj by blast
    with idx[OF ju(1)] show False by simp
  qed
  have pr: "map snd (processed (log ?res)) = xs @ t # ys"
    using loop_processed[OF loop, of "length ?L"] assms(3) by simp
  show ?thesis
    using run att failed notcap notimg pr by blast
qed

text \<open>
  An instance: the external tool ends with return code 1 and no file on the second of
  three timestamps, and the decoder does not open, so both strategies fail in each of
  the three passes; the run goes on to the third timestamp.
\<close>

lemma retry_exhaustion_example:
  "\<exists>s. capture_screenshots (example_env\<lparr>tool := failing_second\<rparr>) [10, 60, 90] ''shots'' 3
             Map.empty = Inr s
          \<and> attempts 2 (log s) = 3
          \<and> Failed 2 60 \<in> set (log s)
          \<and> (2, 60) \<notin> set (captured (log s))
          \<and> map snd (processed (log s)) = [10, 60, 90]"
proof -
  let ?e = "example_env\<lparr>tool := failing_second\<rparr>"
  let ?d = "resolve_dir ?e ''shots''"
  let ?sb = "(loop_start ?e [10, 60, 90] Map.empty)
        \<lparr>images := images (loop_start ?e [10, 60, 90] Map.empty) @ [img_path ?d 1 10],
         files := (files (loop_start ?e [10, 60, 90] Map.empty))(img_path ?d 1 10 \<mapsto> ImageFile (ToolShot 10)),
         log := log (loop_start ?e [10, 60, 90] Map.empty) @ [Attempt 1 10, Captured 1 10]\<rparr>"
  have m: "makedirs_ok ?e" by (simp add: example_env_def)
  have ok: "timedelta_ok (py_int 10)" "timedelta_ok (py_int 60)" "timedelta_ok (py_int 90)"
    "timedelta_ok (py_int 120)"
    by (simp_all add: timedelta_ok_def py_int_def)
  have pr: "probe ?e [10, 60, 90] = Duration 120"
    by (simp add: probe_def example_env_def py_int_def)
  then have dc: "duration_check ?e [10, 60, 90] = Duration 120"
    using ok(4) by (simp add: duration_check_def)
  have p: "duration_check ?e [10, 60, 90] \<noteq> Unreadable" using dc by simp
  have li: "loop_input ?e [10, 60, 90] = [10] @ 60 # [90]"
    using dc by (simp add: loop_input_def valid_timestamps_def)
  have all: "\<forall>u \<in> set (loop_input ?e [10, 60, 90]). timedelta_ok (py_int u)"
    using ok by (simp add: li)
  have one: "capture_one ?e ?d 3 1 10 (loop_start ?e [10, 60, 90] Map.empty) = Inr ?sb"
    using ok(1)
    by (simp add: capture_one_def numeral_3_eq_3 Let_def attempt_def tool_write_def nonempty_def
        failing_second_def)
  have sb: "capture_loop ?e ?d 3 1 [10] (loop_start ?e [10, 60, 90] Map.empty) = Inr ?sb"
    using one by simp
  have f: "all_fail ?e (img_path ?d (Suc (length [10::real])) 60)
             (Suc (length [10::real])) 60 0 3 (files ?sb)"
    using ok(2)
    by (simp add: numeral_3_eq_3 Let_def failing_second_def attempt_def tool_write_def
        nonempty_def decode_seek_def example_env_def loop_start_facts img_path_inj)
  from retry_exhaustion_in_range[OF m p li all sb f] show ?thesis
    by (auto simp: numeral_2_eq_2)
qed

text \<open>
  C3. The claim fails on the code. In a stream whose position is reported as 0 the
  duration is taken to be the largest requested timestamp plus 60; for the request
  \<open>[10, 100000000000000]\<close> the message of line 200 cannot format that duration, so the
  handler of line 209 hands both timestamps to the loop. The first is captured. Each of
  the three passes on the second ends without an image (at the message of line 221,
  before a strategy is tried), and the message of line 291, which reports the failure,
  raises \<^verbatim>\<open>OverflowError\<close> outside any \<^verbatim>\<open>try\<close>: the run is aborted, and no list
  of images is returned.
\<close>

theorem retry_exhaustion_aborts:
  "duration_check stream_env [10, 100000000000000] = ProbeException
   \<and> all_fail stream_env (img_path ''/work/high_res_screenshots'' 2 100000000000000) 2
        100000000000000 0 3
        [''/work/high_res_screenshots/screenshot_001_10s.jpg'' \<mapsto> ImageFile (ToolShot 10)]
   \<and> capture_screenshots stream_env [10, 100000000000000] ''high_res_screenshots'' 3 Map.empty
        = Inl OverflowError"
proof -
  have p: "probe stream_env [10, 100000000000000] = Duration (100000000000000 + 60)"
    by (simp add: probe_def stream_env_def example_env_def py_int_def)
  have dc: "duration_check stream_env [10, 100000000000000] = ProbeException"
    unfolding duration_check_def p using timedelta_range(3) by simp
  have m: "makedirs_ok stream_env" by (simp add: stream_env_def example_env_def)
  have f: "all_fail stream_env (img_path ''/work/high_res_screenshots'' 2 100000000000000) 2
        100000000000000 0 3
        [''/work/high_res_screenshots/screenshot_001_10s.jpg'' \<mapsto> ImageFile (ToolShot 10)]"
    using timedelta_range(2) by (simp add: numeral_3_eq_3)
  have "\<not> (\<forall>t \<in> set [10, 100000000000000 :: real]. timedelta_ok (py_int t))"
    using timedelta_range(2) by simp
  from unfiltered_raises[OF m dc this] dc f show ?thesis by simp
qed

section \<open>What the image files hold\<close>
















section \<open>The pages of the document\<close>

lemma flow_fits:
  "(\<forall>x \<in> set cs. 0 \<le> fst x) \<Longrightarrow> y + sum_list (map fst cs) \<le> trigger \<Longrightarrow>
     flow margin trigger cs cur y = [TextPage (cur @ map snd cs)]"
proof (induction cs arbitrary: cur y)
  case Nil
  then show ?case by simp
next
  case (Cons x cs)
  obtain h c where x: "x = (h, c)" by (cases x)
  have nn: "0 \<le> sum_list (map fst cs)"
    by (rule sum_list_nonneg) (use Cons.prems(1) in auto)
  have fit: "\<not> y + h > trigger" using Cons.prems(2) nn x by simp
  have "flow margin trigger cs (cur @ [c]) (y + h) = [TextPage ((cur @ [c]) @ map snd cs)]"
    using Cons.prems x by (intro Cons.IH) (simp_all add: add.assoc)
  then show ?case using fit x by simp
qed

lemma flow_nonempty: "flow margin trigger cs cur y \<noteq> []"
proof (induction cs arbitrary: cur y)
  case Nil
  then show ?case by simp
next
  case (Cons x cs)
  obtain h c where x: "x = (h, c)" by (cases x)
  show ?case using Cons.IH x by (cases "trigger < y + h") simp_all
qed

lemma flow_overflows:
  "cs \<noteq> [] \<Longrightarrow> trigger < y + sum_list (map fst cs) \<Longrightarrow>
     2 \<le> length (flow margin trigger cs cur y)"
proof (induction cs arbitrary: cur y)
  case Nil
  then show ?case by simp
next
  case (Cons x cs)
  obtain h c where x: "x = (h, c)" by (cases x)
  show ?case
  proof (cases "y + h > trigger")
    case True
    have "1 \<le> length (flow margin trigger cs [c] (margin + h))"
      using flow_nonempty[of margin trigger cs "[c]" "margin + h"]
      by (cases "flow margin trigger cs [c] (margin + h)") simp_all
    then show ?thesis using True x by simp
  next
    case False
    have ne: "cs \<noteq> []" using False Cons.prems(2) x by auto
    have "trigger < (y + h) + sum_list (map fst cs)" using Cons.prems(2) x by (simp add: add.assoc)
    from Cons.IH[OF ne this] show ?thesis using False x by simp
  qed
qed

lemma title_cells_facts:
  "\<forall>x \<in> set (title_cells title n). 0 \<le> fst x"
  "sum_list (map fst (title_cells title n)) =
     100 + 30 * real (length (title_lines (sanitize_title title)))"
  "map snd (title_cells title n) =
     Heading # map TitleLine (title_lines (sanitize_title title)) @ [Count n]"
proof -
  show "\<forall>x \<in> set (title_cells title n). 0 \<le> fst x"
    by (auto simp: title_cells_def)
  have "sum_list (map fst (map (\<lambda>l. (30::real, TitleLine l)) ls)) = 30 * real (length ls)" for ls
    by (induction ls) simp_all
  then show "sum_list (map fst (title_cells title n)) =
     100 + 30 * real (length (title_lines (sanitize_title title)))"
    by (simp add: title_cells_def)
  show "map snd (title_cells title n) =
     Heading # map TitleLine (title_lines (sanitize_title title)) @ [Count n]"
    by (simp add: title_cells_def comp_def)
qed

lemma title_section_one_page:
  assumes "top_margin e + 100 + 30 * real (length (title_lines (sanitize_title title)))
             \<le> page_break_trigger e"
  shows "title_section e title n =
           [TextPage (Heading # map TitleLine (title_lines (sanitize_title title)) @ [Count n])]"
proof -
  have "top_margin e + sum_list (map fst (title_cells title n)) \<le> page_break_trigger e"
    using assms by (simp add: title_cells_facts(2))
  from flow_fits[OF title_cells_facts(1) this, of "top_margin e" "[]"] show ?thesis
    by (simp add: title_section_def title_cells_facts(3))
qed

lemma title_section_pages:
  "length (title_section e title n) = 1 \<longleftrightarrow>
     top_margin e + 100 + 30 * real (length (title_lines (sanitize_title title)))
       \<le> page_break_trigger e"
proof
  assume "top_margin e + 100 + 30 * real (length (title_lines (sanitize_title title)))
       \<le> page_break_trigger e"
  then show "length (title_section e title n) = 1" by (simp add: title_section_one_page)
next
  assume one: "length (title_section e title n) = 1"
  show "top_margin e + 100 + 30 * real (length (title_lines (sanitize_title title)))
       \<le> page_break_trigger e"
  proof (rule ccontr)
    assume "\<not> ?thesis"
    then have "page_break_trigger e < top_margin e + sum_list (map fst (title_cells title n))"
      by (simp add: title_cells_facts(2))
    moreover have "title_cells title n \<noteq> []" by (simp add: title_cells_def)
    ultimately have "2 \<le> length (flow (top_margin e) (page_break_trigger e)
                              (title_cells title n) [] (top_margin e))"
      by (intro flow_overflows)
    with one show False by (simp add: title_section_def)
  qed
qed

lemma title_lines_length: "length (title_lines s) = (length s + 44) div 45"
  by (simp add: title_lines_def)

text \<open>
  With the page layout of the library for A4 landscape, the title section is one page
  exactly for a title of at most 585 characters, that is, of at most 13 lines.
\<close>

lemma title_page_default:
  "length (title_section example_env title n) = 1 \<longleftrightarrow> length title \<le> 585"
proof -
  let ?k = "(length title + 44) div 45"
  have "length (title_section example_env title n) = 1 \<longleftrightarrow>
      top_margin example_env + 100 + 30 * real (length (title_lines (sanitize_title title)))
        \<le> page_break_trigger example_env"
    by (rule title_section_pages)
  also have "\<dots> \<longleftrightarrow> 28.35 + 100 + 30 * real ?k \<le> (538.58 :: real)"
    by (simp add: title_lines_length sanitize_title_def example_env_def)
  also have "\<dots> \<longleftrightarrow> real ?k \<le> 13"
  proof
    assume "28.35 + 100 + 30 * real ?k \<le> (538.58 :: real)"
    then have "real ?k < 14" by simp
    then have "?k < 14" by linarith
    then show "real ?k \<le> 13" by simp
  next
    assume "real ?k \<le> 13"
    then show "28.35 + 100 + 30 * real ?k \<le> (538.58 :: real)" by simp
  qed
  also have "\<dots> \<longleftrightarrow> ?k \<le> 13" by simp
  also have "\<dots> \<longleftrightarrow> length title \<le> 585" by linarith
  finally show ?thesis .
qed












end
